theory Spec2Isabelle
  imports Complex_Main
begin

section \<open>JavaScript values used by the component\<close>

text \<open>
  A JavaScript string is a sequence of UTF-16 code units; a code unit is modelled as a
  natural number, so that \<open>length\<close> counts what \<open>String.prototype.length\<close> counts.
  \<open>js\<close> turns a literal of the theory into such a sequence.
\<close>

type_synonym jsstring = "nat list"

definition js :: "string \<Rightarrow> jsstring" where
  "js s = map of_char s"

text \<open>\<open>Array.prototype.findIndex\<close>: the position of the first element that satisfies the
  predicate; \<open>None\<close> stands for the result \<open>-1\<close>.\<close>

fun findIndex :: "('a \<Rightarrow> bool) \<Rightarrow> 'a list \<Rightarrow> nat option" where
  "findIndex P [] = None"
| "findIndex P (a # as) = (if P a then Some 0 else map_option Suc (findIndex P as))"

text \<open>\<open>xs.splice(i, 1)\<close>: the array without its element at position \<open>i\<close>.\<close>

definition splice1 :: "nat \<Rightarrow> 'a list \<Rightarrow> 'a list" where
  "splice1 i xs = take i xs @ drop (Suc i) xs"

section \<open>Data model of \<open>Magician.vue\<close>\<close>

record ParsedLine =
  id_p :: nat
  text_p :: jsstring
  color_p :: "jsstring option"

record Transform =
  x_t :: real
  y_t :: real
  scale_t :: real

record ChatLayer =
  id_l :: int
  name_l :: jsstring
  text_l :: jsstring
  parsedLines :: "ParsedLine list"
  transform :: Transform
  visible :: bool

datatype CensorType = None_c | Invisible | BlackBar | Blur

record CensoredRegion =
  lineIndex :: int
  startOffset :: int
  endOffset :: int
  type_r :: CensorType
  layerId :: int

text \<open>The reactive object \<open>selectedText\<close>.\<close>

record SelectedText =
  layerId_s :: int
  lineIndex_s :: int
  startOffset_s :: int
  endOffset_s :: int
  text_s :: jsstring

text \<open>The refs and reactive objects of the component that the modelled functions read or
  write, as one state that every function takes and returns.\<close>

record AppState =
  chatLayers :: "ChatLayer list"
  selectedChatLayerId :: "int option"
  nextChatLayerId :: int
  droppedImageSrc :: "jsstring option"
  dropZoneWidth :: "real option"
  dropZoneHeight :: "real option"
  showNewSessionDialog :: bool
  stripTimestamps :: bool
  screenshotTheme :: jsstring
  isImageDraggingEnabled :: bool
  imageTransform :: Transform
  isPanning :: bool
  isChatDraggingEnabled :: bool
  chatTransform :: Transform
  isChatPanning :: bool
  chatLineWidth :: real
  characterName :: jsstring
  showBlackBars :: bool
  censoredRegions :: "CensoredRegion list"
  selectedText :: SelectedText
  renderKey :: int

text \<open>\<open>Number.prototype.toString\<close> for the integers the component prints (decimal digits;
  code unit 48 is the digit zero, 45 the minus sign).\<close>

fun toStringNat :: "nat \<Rightarrow> jsstring" where
  "toStringNat n = (if n < 10 then [48 + n] else toStringNat (n div 10) @ [48 + n mod 10])"

declare toStringNat.simps [simp del]

definition toStringInt :: "int \<Rightarrow> jsstring" where
  "toStringInt i = (if i < 0 then 45 # toStringNat (nat (- i)) else toStringNat (nat i))"

section \<open>String methods\<close>

text \<open>The code units that \<open>String.prototype.trim\<close> strips and that the class escape
  \<open>\s\<close> matches: the WhiteSpace and LineTerminator code points of ECMAScript.\<close>

definition isWhiteSpace :: "nat \<Rightarrow> bool" where
  "isWhiteSpace c \<longleftrightarrow>
     (9 \<le> c \<and> c \<le> 13) \<or> c = 32 \<or> c = 160 \<or> c = 5760 \<or> (8192 \<le> c \<and> c \<le> 8202) \<or>
     c = 8232 \<or> c = 8233 \<or> c = 8239 \<or> c = 8287 \<or> c = 12288 \<or> c = 65279"

text \<open>The dot of a regular expression without the flag \<open>s\<close> matches every code unit except
  the line terminators.\<close>

definition isLineTerminator :: "nat \<Rightarrow> bool" where
  "isLineTerminator c \<longleftrightarrow> c = 10 \<or> c = 13 \<or> c = 8232 \<or> c = 8233"

definition isDigit :: "nat \<Rightarrow> bool" where
  "isDigit c \<longleftrightarrow> 48 \<le> c \<and> c \<le> 57"

definition isAsciiLetter :: "nat \<Rightarrow> bool" where
  "isAsciiLetter c \<longleftrightarrow> (65 \<le> c \<and> c \<le> 90) \<or> (97 \<le> c \<and> c \<le> 122)"

text \<open>\<open>\w\<close>, which decides the word boundary \<open>\b\<close>.\<close>

definition isWordChar :: "nat \<Rightarrow> bool" where
  "isWordChar c \<longleftrightarrow> isAsciiLetter c \<or> isDigit c \<or> c = 95"

definition trim :: "jsstring \<Rightarrow> jsstring" where
  "trim s = rev (dropWhile isWhiteSpace (rev (dropWhile isWhiteSpace s)))"

definition startsWith :: "jsstring \<Rightarrow> jsstring \<Rightarrow> bool" where
  "startsWith s searchString \<longleftrightarrow> take (length searchString) s = searchString"

text \<open>\<open>s.split(c)\<close> for a separator of one code unit: the pieces between the separators,
  empty pieces included; the empty string gives one empty piece.\<close>

fun splitAcc :: "nat \<Rightarrow> jsstring \<Rightarrow> jsstring \<Rightarrow> jsstring list" where
  "splitAcc c acc [] = [rev acc]"
| "splitAcc c acc (a # as) =
     (if a = c then rev acc # splitAcc c [] as else splitAcc c (a # acc) as)"

definition splitOn :: "nat \<Rightarrow> jsstring \<Rightarrow> jsstring list" where
  "splitOn c s = splitAcc c [] s"

text \<open>\<open>parts.join('')\<close> is \<open>concat\<close>. \<open>s.slice(from, to)\<close> and \<open>s.slice(from)\<close>: a negative
  index counts from the end, indices are clamped to the string, and an empty range gives
  the empty string.\<close>

definition sliceIndex :: "jsstring \<Rightarrow> int \<Rightarrow> nat" where
  "sliceIndex s k =
     (if k < 0 then nat (max (int (length s) + k) 0) else nat (min k (int (length s))))"

definition slice :: "jsstring \<Rightarrow> int \<Rightarrow> int \<Rightarrow> jsstring" where
  "slice s from to = take (sliceIndex s to - sliceIndex s from) (drop (sliceIndex s from) s)"

definition sliceFrom :: "jsstring \<Rightarrow> int \<Rightarrow> jsstring" where
  "sliceFrom s from = drop (sliceIndex s from) s"

text \<open>\<open>s.padStart(2, '0')\<close>.\<close>

definition padStart2 :: "jsstring \<Rightarrow> jsstring" where
  "padStart2 s = replicate (2 - length s) 48 @ s"

text \<open>\<open>Array.prototype.map\<close> passes the element and its index to the callback.\<close>

fun mapIndexFrom :: "('a \<Rightarrow> nat \<Rightarrow> 'b) \<Rightarrow> nat \<Rightarrow> 'a list \<Rightarrow> 'b list" where
  "mapIndexFrom f k [] = []"
| "mapIndexFrom f k (a # as) = f a k # mapIndexFrom f (Suc k) as"

definition mapIndex :: "('a \<Rightarrow> nat \<Rightarrow> 'b) \<Rightarrow> 'a list \<Rightarrow> 'b list" where
  "mapIndex f xs = mapIndexFrom f 0 xs"

section \<open>Regular expressions\<close>

text \<open>
  The syntax of the regular expressions that the component writes: pattern characters,
  classes (a class escape, a bracketed set or the dot, as a predicate on code units),
  sequence, alternative, the quantifiers \<open>*\<close>, \<open>+\<close> and \<open>+?\<close> on a class, the assertions
  \<open>^\<close> and \<open>\b\<close>, and a capturing group.
\<close>

datatype re =
    Eps
  | Lit nat
  | Cls "nat \<Rightarrow> bool"
  | Seq re re
  | Alt re re
  | Star "nat \<Rightarrow> bool"
  | Plus "nat \<Rightarrow> bool"
  | PlusLazy "nat \<Rightarrow> bool"
  | Bol
  | WordB
  | Grp re

text \<open>A \<open>RegExp\<close> object: the pattern and the flag \<open>i\<close>. None of the expressions that
  \<open>test\<close>, \<open>split\<close> or the one-match \<open>replace\<close> are called with has the flag \<open>g\<close>, so those
  calls keep no state in \<open>lastIndex\<close>.\<close>

record RegExp =
  source :: re
  ignoreCase :: bool

text \<open>Canonicalisation under the flag \<open>i\<close> (without the flag \<open>u\<close>): a code unit is
  compared by its upper-case form, and a code unit from 128 on never becomes one below
  128, so a pattern character below 128 matches itself and its other ASCII case only.\<close>

definition toUpperAscii :: "nat \<Rightarrow> nat" where
  "toUpperAscii c = (if 97 \<le> c \<and> c \<le> 122 then c - 32 else c)"

definition runLength :: "(nat \<Rightarrow> bool) \<Rightarrow> jsstring \<Rightarrow> nat" where
  "runLength p s = length (takeWhile p s)"

definition wordAt :: "jsstring \<Rightarrow> nat \<Rightarrow> bool" where
  "wordAt s i \<longleftrightarrow> i < length s \<and> isWordChar (s ! i)"

text \<open>
  \<open>lens ic r s i\<close>: the lengths of the matches of \<open>r\<close> in \<open>s\<close> that start at position
  \<open>i\<close>, in the order in which the backtracking matcher of ECMAScript tries them; the
  first one is the match that \<open>exec\<close> reports at that position. \<open>ic\<close> is the flag \<open>i\<close>.
\<close>

fun lens :: "bool \<Rightarrow> re \<Rightarrow> jsstring \<Rightarrow> nat \<Rightarrow> nat list" where
  "lens ic Eps s i = [0]"
| "lens ic (Lit c) s i =
     (if i < length s \<and>
         (if ic then toUpperAscii (s ! i) = toUpperAscii c else s ! i = c)
      then [1] else [])"
| "lens ic (Cls p) s i = (if i < length s \<and> p (s ! i) then [1] else [])"
| "lens ic (Seq a b) s i =
     concat (map (\<lambda>la. map (\<lambda>lb. la + lb) (lens ic b s (i + la))) (lens ic a s i))"
| "lens ic (Alt a b) s i = lens ic a s i @ lens ic b s i"
| "lens ic (Star p) s i = rev [0..<Suc (runLength p (drop i s))]"
| "lens ic (Plus p) s i = rev [1..<Suc (runLength p (drop i s))]"
| "lens ic (PlusLazy p) s i = [1..<Suc (runLength p (drop i s))]"
| "lens ic Bol s i = (if i = 0 then [0] else [])"
| "lens ic WordB s i =
     (if (0 < i \<and> wordAt s (i - 1)) \<noteq> wordAt s i then [0] else [])"
| "lens ic (Grp a) s i = lens ic a s i"

definition matchAt :: "RegExp \<Rightarrow> jsstring \<Rightarrow> nat \<Rightarrow> nat option" where
  "matchAt rx s i =
     (case lens (ignoreCase rx) (source rx) s i of [] \<Rightarrow> None | l # _ \<Rightarrow> Some l)"

text \<open>\<open>rx.test(s)\<close>: there is a match at some position, the end of the string included.\<close>

definition test :: "RegExp \<Rightarrow> jsstring \<Rightarrow> bool" where
  "test rx s \<longleftrightarrow> list_ex (\<lambda>i. matchAt rx s i \<noteq> None) [0..<Suc (length s)]"

text \<open>\<open>s.replace(rx, replacement)\<close> without the flag \<open>g\<close>: the leftmost match is replaced.\<close>

definition replaceFirst :: "RegExp \<Rightarrow> jsstring \<Rightarrow> jsstring \<Rightarrow> jsstring" where
  "replaceFirst rx replacement s =
     (case List.find (\<lambda>i. matchAt rx s i \<noteq> None) [0..<Suc (length s)] of
        None \<Rightarrow> s
      | Some i \<Rightarrow> take i s @ replacement @ drop (i + the (matchAt rx s i)) s)"

text \<open>
  \<open>s.replace(rx, replacement)\<close> with the flag \<open>g\<close>, from position \<open>q\<close> on: the string is
  scanned from the left; a match is replaced and the scan goes on behind it, and a code
  unit at which no match starts is copied. After an empty match the scan advances by one
  code unit, which is copied.
\<close>

function replaceAllFrom :: "RegExp \<Rightarrow> jsstring \<Rightarrow> jsstring \<Rightarrow> nat \<Rightarrow> jsstring" where
  "replaceAllFrom rx replacement s q =
     (if length s < q then []
      else case matchAt rx s q of
             None \<Rightarrow> take 1 (drop q s) @ replaceAllFrom rx replacement s (Suc q)
           | Some l \<Rightarrow>
               if l = 0 then
                 replacement @ take 1 (drop q s) @ replaceAllFrom rx replacement s (Suc q)
               else replacement @ replaceAllFrom rx replacement s (q + l))"
  by pat_completeness auto
termination
  by (relation "measure (\<lambda>(rx, replacement, s, q). Suc (length s) - q)") auto

declare replaceAllFrom.simps [simp del]

definition replaceAll :: "RegExp \<Rightarrow> jsstring \<Rightarrow> jsstring \<Rightarrow> jsstring" where
  "replaceAll rx replacement s = replaceAllFrom rx replacement s 0"

text \<open>
  \<open>s.split(rx)\<close>: \<open>p\<close> is the end of the last piece and \<open>q\<close> the position at which a match
  is tried. A match that ends at \<open>p\<close> is skipped; any other match closes the piece from
  \<open>p\<close> to \<open>q\<close>, and the captures follow the piece in the result. The split patterns of
  the component are one capturing group around the whole pattern, so the capture is the
  matched text.
\<close>

fun capturesOf :: "re \<Rightarrow> jsstring \<Rightarrow> jsstring list" where
  "capturesOf (Grp a) matched = [matched]"
| "capturesOf r matched = []"

function splitLoop :: "RegExp \<Rightarrow> jsstring \<Rightarrow> nat \<Rightarrow> nat \<Rightarrow> jsstring list" where
  "splitLoop rx s p q =
     (if q < length s then
        (case matchAt rx s q of
           None \<Rightarrow> splitLoop rx s p (Suc q)
         | Some l \<Rightarrow>
             if q + l = p then splitLoop rx s p (Suc q)
             else take (q - p) (drop p s) # capturesOf (source rx) (take l (drop q s)) @
                  splitLoop rx s (q + l) (q + l))
      else [drop p s])"
  by pat_completeness auto
termination
  by (relation "measure (\<lambda>(rx, s, p, q). 2 * (length s - q) + (if p = q then 0 else 1))") auto

declare splitLoop.simps [simp del]

definition splitRe :: "RegExp \<Rightarrow> jsstring \<Rightarrow> jsstring list" where
  "splitRe rx s =
     (if s = [] then (case matchAt rx s 0 of Some l \<Rightarrow> [] | None \<Rightarrow> [s])
      else splitLoop rx s 0 0)"

text \<open>Writing patterns: a run of pattern characters, and a sequence of parts.\<close>

definition str :: "string \<Rightarrow> re" where
  "str cs = foldr (\<lambda>c r. Seq (Lit (of_char c)) r) cs Eps"

definition seqs :: "re list \<Rightarrow> re" where
  "seqs rs = foldr Seq rs Eps"

definition dot :: "nat \<Rightarrow> bool" where
  "dot c \<longleftrightarrow> \<not> isLineTerminator c"

section \<open>The layer store\<close>

text \<open>The argument \<open>options?: Partial<ChatLayer>\<close> of \<open>createChatLayer\<close>: every field may
  be missing.\<close>

record LayerOptions =
  id_o :: "int option"
  name_o :: "jsstring option"
  text_o :: "jsstring option"
  parsedLines_o :: "ParsedLine list option"
  transform_o :: "Transform option"
  visible_o :: "bool option"

definition noOptions :: LayerOptions where
  "noOptions = \<lparr>id_o = None, name_o = None, text_o = None, parsedLines_o = None,
     transform_o = None, visible_o = None\<rparr>"

text \<open>\<open>a || b\<close> on an optional string: the empty string is falsy.\<close>

definition orString :: "jsstring option \<Rightarrow> jsstring \<Rightarrow> jsstring" where
  "orString a b = (case a of None \<Rightarrow> b | Some v \<Rightarrow> if v = [] then b else v)"

text \<open>
  A layer object is referred to by its position in \<open>chatLayers\<close>: the functions below
  only ever hold references to layers that are in the array. \<open>createChatLayer\<close> returns
  the reference to the layer it pushed.
\<close>

definition createChatLayer :: "LayerOptions \<Rightarrow> AppState \<Rightarrow> nat \<times> AppState" where
  "createChatLayer options s =
     (let layer =
        \<lparr>id_l = (case id_o options of Some i \<Rightarrow> i | None \<Rightarrow> nextChatLayerId s),
         name_l = orString (name_o options)
                    (js ''Layer '' @ toStringNat (length (chatLayers s) + 1)),
         text_l = orString (text_o options) [],
         parsedLines = (case parsedLines_o options of Some ls \<Rightarrow> ls | None \<Rightarrow> []),
         transform = (case transform_o options of Some tr \<Rightarrow> tr
                      | None \<Rightarrow> \<lparr>x_t = 0, y_t = 0, scale_t = 1\<rparr>),
         visible = (case visible_o options of Some v \<Rightarrow> v | None \<Rightarrow> True)\<rparr>
      in (length (chatLayers s),
          s\<lparr>nextChatLayerId :=
               (case id_o options of Some i \<Rightarrow> nextChatLayerId s
                | None \<Rightarrow> nextChatLayerId s + 1),
            chatLayers := chatLayers s @ [layer]\<rparr>))"

text \<open>The computed \<open>activeChatLayer\<close>: the first layer with the selected id, else the first
  layer; \<open>None\<close> (undefined) when there is no layer at all.\<close>

definition activeChatLayer :: "AppState \<Rightarrow> nat option" where
  "activeChatLayer s =
     (if chatLayers s = [] then None
      else case selectedChatLayerId s of
             None \<Rightarrow> Some 0
           | Some sel \<Rightarrow>
               (case findIndex (\<lambda>layer. id_l layer = sel) (chatLayers s) of
                  Some i \<Rightarrow> Some i
                | None \<Rightarrow> Some 0))"

text \<open>Assignment to a field of the layer object at a reference.\<close>

definition updateLayer :: "nat \<Rightarrow> (ChatLayer \<Rightarrow> ChatLayer) \<Rightarrow> AppState \<Rightarrow> AppState" where
  "updateLayer i f s = s\<lparr>chatLayers := (chatLayers s)[i := f (chatLayers s ! i)]\<rparr>"

text \<open>The setters of the computed \<open>chatlogText\<close> and \<open>parsedChatLines\<close>: they write to the
  active layer, when there is one.\<close>

definition set_chatlogText :: "jsstring \<Rightarrow> AppState \<Rightarrow> AppState" where
  "set_chatlogText val s =
     (case activeChatLayer s of
        Some i \<Rightarrow> updateLayer i (\<lambda>l. l\<lparr>text_l := val\<rparr>) s
      | None \<Rightarrow> s)"

definition set_parsedChatLines :: "ParsedLine list \<Rightarrow> AppState \<Rightarrow> AppState" where
  "set_parsedChatLines val s =
     (case activeChatLayer s of
        Some i \<Rightarrow> updateLayer i (\<lambda>l. l\<lparr>parsedLines := val\<rparr>) s
      | None \<Rightarrow> s)"

text \<open>The values the refs are created with, before the bootstrap statement runs.\<close>

definition emptyState :: AppState where
  "emptyState =
     \<lparr>chatLayers = [], selectedChatLayerId = None, nextChatLayerId = 1,
      droppedImageSrc = None, dropZoneWidth = Some 800, dropZoneHeight = Some 600,
      showNewSessionDialog = False, stripTimestamps = False, screenshotTheme = [],
      isImageDraggingEnabled = False,
      imageTransform = \<lparr>x_t = 0, y_t = 0, scale_t = 1\<rparr>, isPanning = False,
      isChatDraggingEnabled = False,
      chatTransform = \<lparr>x_t = 0, y_t = 0, scale_t = 1\<rparr>, isChatPanning = False,
      chatLineWidth = 640, characterName = [], showBlackBars = False,
      censoredRegions = [],
      selectedText = \<lparr>layerId_s = - 1, lineIndex_s = - 1, startOffset_s = 0,
                       endOffset_s = 0, text_s = []\<rparr>,
      renderKey = 0\<rparr>"

text \<open>"Bootstrap with a default layer": the state the component starts in.\<close>

definition initialState :: AppState where
  "initialState =
     (if length (chatLayers emptyState) = 0 then
        (let (initialLayer, s) = createChatLayer (noOptions\<lparr>name_o := Some (js ''Layer 1'')\<rparr>) emptyState
         in s\<lparr>selectedChatLayerId := Some (id_l (chatLayers s ! initialLayer))\<rparr>)
      else emptyState)"

definition ensureActiveLayer :: "AppState \<Rightarrow> nat \<times> AppState" where
  "ensureActiveLayer s =
     (case activeChatLayer s of
        Some i \<Rightarrow> (i, s)
      | None \<Rightarrow>
          (let (newLayer, s') =
                 createChatLayer
                   (noOptions\<lparr>name_o :=
                      Some (js ''Layer '' @ toStringNat (length (chatLayers s) + 1))\<rparr>) s
           in (newLayer, s'\<lparr>selectedChatLayerId := Some (id_l (chatLayers s' ! newLayer))\<rparr>)))"

section \<open>The pattern table \<open>colorMappings\<close>\<close>

record ColorMapping =
  pattern :: RegExp
  color :: jsstring
  splitPattern :: "RegExp option"
  markerColor :: "jsstring option"
  fullLine :: bool
  checkPlayerName :: bool

text \<open>A mapping with a pattern and a color only; a flag that the object literal leaves
  out is undefined, which the conditions of \<open>parseChatlog\<close> read as false.\<close>

definition plainMapping :: "re \<Rightarrow> bool \<Rightarrow> string \<Rightarrow> ColorMapping" where
  "plainMapping r ic c =
     \<lparr>pattern = \<lparr>source = r, ignoreCase = ic\<rparr>, color = js c, splitPattern = None,
      markerColor = None, fullLine = False, checkPlayerName = False\<rparr>"

definition splitMapping :: "re \<Rightarrow> string \<Rightarrow> re \<Rightarrow> string \<Rightarrow> ColorMapping" where
  "splitMapping r c sp mc =
     \<lparr>pattern = \<lparr>source = r, ignoreCase = False\<rparr>, color = js c,
      splitPattern = Some \<lparr>source = sp, ignoreCase = False\<rparr>,
      markerColor = Some (js mc), fullLine = False, checkPlayerName = False\<rparr>"

definition radioMapping :: ColorMapping where
  "radioMapping =
     (plainMapping
        (seqs [Bol, str ''** [S: '', PlusLazy dot, str '' | CH: '', PlusLazy dot, str '']''])
        True ''rgb(214, 207, 140)'')\<lparr>fullLine := True\<rparr>"

definition cellphoneMapping :: ColorMapping where
  "cellphoneMapping =
     (plainMapping (str ''(cellphone)'') True ''rgb(251, 247, 36)'')
       \<lparr>fullLine := True, checkPlayerName := True\<rparr>"

definition colorMappings :: "ColorMapping list" where
  "colorMappings =
     [radioMapping,
      cellphoneMapping,
      plainMapping (Alt (str ''says:'') (str ''shouts:'')) True ''rgb(241, 241, 241)'',
      plainMapping (str ''(Car)'') True ''rgb(251, 247, 36)'',
      plainMapping (Seq Bol (str ''*'')) False ''rgb(194, 163, 218)'',
      plainMapping (seqs [WordB, str ''whispers'', WordB]) True ''rgb(237, 168, 65)'',
      plainMapping
        (Alt (seqs [WordB, str ''You paid'', WordB])
          (Alt (seqs [WordB, str ''paid you'', WordB])
            (Alt (seqs [WordB, str ''you gave'', WordB])
              (Alt (seqs [WordB, str ''gave you'', WordB])
                (seqs [WordB, str ''You received'', WordB])))))
        True ''rgb(86, 214, 75)'',
      plainMapping (str ''g)'') True ''rgb(255, 255, 0)'',
      plainMapping (Alt (str ''[low]:'') (str ''[lower]:'')) True ''rgb(150, 149, 149)'',
      splitMapping (str ''[!]'') ''rgb(255, 255, 255)'' (Grp (str ''[!]'')) ''rgb(255, 0, 195)'',
      splitMapping (str ''[INFO]:'') ''rgb(255, 255, 255)'' (Grp (str ''[INFO]:''))
        ''rgb(27, 124, 222)'',
      splitMapping (str ''[ALERT]'') ''rgb(255, 255, 255)'' (Grp (str ''[ALERT]''))
        ''rgb(27, 124, 222)'',
      splitMapping (str ''[GYM]'') ''rgb(255, 255, 255)'' (Grp (str ''[GYM]''))
        ''rgb(22, 106, 189)'',
      plainMapping (str ''[advertisement]'') True ''rgb(127, 239, 43)'',
      plainMapping (str ''(( (PM'') True ''rgb(239, 227, 0)'',
      plainMapping (str ''(( ('') True ''rgb(139, 138, 138)'',
      plainMapping (str ''[megaphone]'') True ''rgb(241, 213, 3)'',
      plainMapping (str ''[microphone]'') True ''rgb(246, 218, 3)'',
      plainMapping (str ''[intercom]'') True ''rgb(26, 131, 232)'',
      splitMapping (str ''[Character kill]'') ''rgb(240, 0, 0)''
        (Grp (str ''[Character kill]'')) ''rgb(56, 150, 243)'',
      splitMapping (seqs [str ''[$'', Star dot, str ''g)'']) ''rgb(255, 255, 0)''
        (Grp (seqs [str ''[$'', Star (\<lambda>c. c \<noteq> 93), str '']''])) ''rgb(86, 214, 75)'',
      splitMapping (seqs [str ''($'', Star dot, str ''g)'']) ''rgb(255, 255, 0)''
        (Grp (seqs [str ''($'', Star (\<lambda>c. c \<noteq> 41), str '')''])) ''rgb(86, 214, 75)'',
      splitMapping (seqs [str '' PH: '', Star dot, str ''g)'']) ''rgb(255, 255, 0)''
        (Grp (seqs [str '' PH: '', Star dot])) ''rgb(86, 214, 75)'']"

section \<open>\<open>parseChatlog\<close>\<close>

text \<open>The expression \<open>/^\[\d{2}:\d{2}:\d{2}\]\s*/\<close> that strips a timestamp.\<close>

definition timestampRegExp :: RegExp where
  "timestampRegExp =
     \<lparr>source =
        seqs [Bol, str ''['', Cls isDigit, Cls isDigit, str '':'', Cls isDigit, Cls isDigit,
              str '':'', Cls isDigit, Cls isDigit, str '']'', Star isWhiteSpace],
      ignoreCase = False\<rparr>"

definition span :: "jsstring \<Rightarrow> jsstring \<Rightarrow> jsstring" where
  "span c part = js ''<span style=\"color: '' @ c @ js ''\">'' @ part @ js ''</span>''"

text \<open>
  The body of the callback of \<open>lines.map\<close> after the timestamp has been stripped: the
  text and the local variable \<open>color\<close> (\<open>None\<close> is undefined) that the tiers leave.
\<close>

definition classifyLine :: "jsstring \<Rightarrow> jsstring \<Rightarrow> jsstring \<times> jsstring option" where
  "classifyLine name processedText =
     (let cellphonePattern =
            List.find (\<lambda>mapping. checkPlayerName mapping \<and> test (pattern mapping) processedText)
              colorMappings
      in
      if cellphonePattern \<noteq> None \<and> name \<noteq> [] then
        (if startsWith processedText name then (processedText, Some (js ''rgb(255, 255, 255)''))
         else (processedText, Some (color (the cellphonePattern))))
      else
        (case List.find
                (\<lambda>mapping. fullLine mapping \<and> \<not> checkPlayerName mapping \<and>
                   test (pattern mapping) processedText) colorMappings of
           Some fullLinePattern \<Rightarrow> (processedText, Some (color fullLinePattern))
         | None \<Rightarrow>
             (let found =
                    List.find
                      (\<lambda>mapping. splitPattern mapping \<noteq> None \<and>
                         test (pattern mapping) processedText) colorMappings
              in
              if found \<noteq> None \<and> splitPattern (the found) \<noteq> None \<and>
                 orString (markerColor (the found)) [] \<noteq> []
              then
                (let sp = the (splitPattern (the found));
                     parts = splitRe sp processedText
                 in
                 if length parts > 1 then
                   (concat
                      (map (\<lambda>part.
                              if test sp part
                              then span (the (markerColor (the found))) part
                              else span (color (the found)) part) parts),
                    Some (js ''white''))
                 else (processedText, None))
              else
                (case List.find (\<lambda>mapping. test (pattern mapping) processedText) colorMappings of
                   Some mapping \<Rightarrow> (processedText, Some (color mapping))
                 | None \<Rightarrow> (processedText, None)))))"

text \<open>The callback of \<open>lines.map\<close>.\<close>

definition processLine :: "bool \<Rightarrow> jsstring \<Rightarrow> jsstring \<Rightarrow> nat \<Rightarrow> ParsedLine" where
  "processLine strip name line index =
     (let processedText = (if strip then replaceFirst timestampRegExp [] line else line);
          (processedText', color') = classifyLine name processedText
      in \<lparr>id_p = index, text_p = processedText',
          color_p = Some (orString color' (js ''white''))\<rparr>)"

text \<open>The lines that are parsed: the pieces between newlines (code unit 10) that are not
  empty after trimming.\<close>

definition survivingLines :: "jsstring \<Rightarrow> jsstring list" where
  "survivingLines sourceText = filter (\<lambda>line. trim line \<noteq> []) (splitOn 10 sourceText)"

text \<open>
  \<open>parseChatlog(layer)\<close>. The argument is a reference to a layer, or \<open>None\<close> when the
  function is called without one; the default is then the active layer, and
  \<open>ensureActiveLayer\<close> makes one when there is none. The assignment to \<open>parsedChatLines\<close>
  goes through the setter, to the active layer.
\<close>

definition parseChatlog :: "nat option \<Rightarrow> AppState \<Rightarrow> AppState" where
  "parseChatlog layer s =
     (let layer' = (case layer of None \<Rightarrow> activeChatLayer s | Some l \<Rightarrow> Some l);
          (targetLayer, s1) = (case layer' of Some l \<Rightarrow> (l, s) | None \<Rightarrow> ensureActiveLayer s);
          s2 = updateLayer targetLayer (\<lambda>l. l\<lparr>visible := True\<rparr>) s1;
          sourceText = text_l (chatLayers s2 ! targetLayer)
      in
      if sourceText = [] then
        (let s3 = updateLayer targetLayer (\<lambda>l. l\<lparr>parsedLines := []\<rparr>) s2;
             s4 = set_parsedChatLines [] s3
         in s4\<lparr>renderKey := renderKey s4 + 1\<rparr>)
      else
        (let lines = survivingLines sourceText;
             parsed = mapIndex (processLine (stripTimestamps s2) (characterName s2)) lines;
             s3 = updateLayer targetLayer (\<lambda>l. l\<lparr>parsedLines := parsed\<rparr>) s2;
             s4 = set_parsedChatLines parsed s3
         in s4\<lparr>renderKey := renderKey s4 + 1\<rparr>))"

text \<open>The array that \<open>parseChatlog\<close> computes from a source text, the flag
  \<open>stripTimestamps\<close> and the character name, and the layer it works on.\<close>

definition parsedLinesOf :: "bool \<Rightarrow> jsstring \<Rightarrow> jsstring \<Rightarrow> ParsedLine list" where
  "parsedLinesOf strip name sourceText =
     (if sourceText = [] then []
      else mapIndex (processLine strip name) (survivingLines sourceText))"

definition parseTarget :: "nat option \<Rightarrow> AppState \<Rightarrow> nat" where
  "parseTarget layer s =
     (case layer of
        Some l \<Rightarrow> l
      | None \<Rightarrow> (case activeChatLayer s of Some l \<Rightarrow> l | None \<Rightarrow> fst (ensureActiveLayer s)))"

text \<open>The state in which \<open>parseChatlog\<close> finds its layer (a layer has been made when
  there was none), and the references that may be passed to it.\<close>

definition parseState :: "nat option \<Rightarrow> AppState \<Rightarrow> AppState" where
  "parseState layer s =
     (if layer = None \<and> chatLayers s = [] then snd (ensureActiveLayer s) else s)"

definition validLayer :: "nat option \<Rightarrow> AppState \<Rightarrow> bool" where
  "validLayer layer s = (case layer of Some l \<Rightarrow> l < length (chatLayers s) | None \<Rightarrow> True)"

text \<open>The array that a call \<open>parseChatlog(layer)\<close> computes in a state.\<close>

definition parsedFor :: "nat option \<Rightarrow> AppState \<Rightarrow> ParsedLine list" where
  "parsedFor layer s =
     parsedLinesOf (stripTimestamps s) (characterName s)
       (text_l (chatLayers (parseState layer s) ! parseTarget layer s))"

text \<open>
  Two callers of \<open>parseChatlog\<close>: the import of a chat file (\<open>handleChatFileSelect\<close> after
  the file has been read) and the restoring of one saved layer in the loop of
  \<open>loadEditorState\<close>.
\<close>

definition importChatText :: "jsstring \<Rightarrow> AppState \<Rightarrow> AppState" where
  "importChatText content s = parseChatlog None (set_chatlogText content s)"

definition restoreLayer :: "LayerOptions \<Rightarrow> AppState \<Rightarrow> AppState" where
  "restoreLayer saved s =
     (let (restored, s1) = createChatLayer (saved\<lparr>parsedLines_o := None\<rparr>) s;
          s2 = parseChatlog (Some restored) s1
      in s2\<lparr>nextChatLayerId :=
              max (nextChatLayerId s2) (id_l (chatLayers s2 ! restored) + 1)\<rparr>)"

section \<open>Selecting, adding, removing and moving layers; a new session\<close>

text \<open>
  The two watchers that copy between \<open>chatTransform\<close> and the transform of the active
  layer run after the function that triggered them has returned; the functions below
  are the synchronous bodies.
\<close>

definition selectChatLayer :: "int \<Rightarrow> AppState \<Rightarrow> AppState" where
  "selectChatLayer i s =
     (case findIndex (\<lambda>l. id_l l = i) (chatLayers s) of
        None \<Rightarrow>
          (let (fallback, s1) = ensureActiveLayer s;
               s2 = s1\<lparr>selectedChatLayerId := Some (id_l (chatLayers s1 ! fallback))\<rparr>;
               s3 = set_parsedChatLines (parsedLines (chatLayers s2 ! fallback)) s2;
               s4 = set_chatlogText (text_l (chatLayers s3 ! fallback)) s3
           in s4\<lparr>chatTransform := transform (chatLayers s4 ! fallback)\<rparr>)
      | Some layer \<Rightarrow>
          (let s1 = s\<lparr>selectedChatLayerId := Some i\<rparr>;
               s2 = (if text_l (chatLayers s1 ! layer) \<noteq> [] \<and>
                        length (parsedLines (chatLayers s1 ! layer)) = 0
                     then parseChatlog (Some layer) s1 else s1);
               s3 = set_chatlogText (text_l (chatLayers s2 ! layer)) s2;
               s4 = set_parsedChatLines (parsedLines (chatLayers s3 ! layer)) s3;
               s5 = s4\<lparr>chatTransform := transform (chatLayers s4 ! layer)\<rparr>
           in s5\<lparr>selectedText := (selectedText s5)\<lparr>lineIndex_s := - 1, layerId_s := - 1\<rparr>\<rparr>))"

definition addChatLayer :: "AppState \<Rightarrow> AppState" where
  "addChatLayer s =
     (let (layer, s1) = createChatLayer noOptions s
      in selectChatLayer (id_l (chatLayers s1 ! layer)) s1)"

definition removeChatLayer :: "int \<Rightarrow> AppState \<Rightarrow> AppState" where
  "removeChatLayer i s =
     (if length (chatLayers s) \<le> 1 then s
      else case findIndex (\<lambda>l. id_l l = i) (chatLayers s) of
             None \<Rightarrow> s
           | Some index \<Rightarrow>
               (let s1 = s\<lparr>chatLayers := splice1 index (chatLayers s)\<rparr>;
                    s2 = s1\<lparr>censoredRegions :=
                              filter (\<lambda>region. layerId region \<noteq> i) (censoredRegions s1)\<rparr>;
                    fallback = (if index = 0 then 0 else index - 1)
                in selectChatLayer (id_l (chatLayers s2 ! fallback)) s2))"

datatype Direction = Up | Down

definition moveChatLayer :: "int \<Rightarrow> Direction \<Rightarrow> AppState \<Rightarrow> AppState" where
  "moveChatLayer i direction s =
     (case findIndex (\<lambda>l. id_l l = i) (chatLayers s) of
        None \<Rightarrow> s
      | Some index \<Rightarrow>
          (let swapWith = (case direction of Up \<Rightarrow> int index - 1 | Down \<Rightarrow> int index + 1)
           in
           if swapWith < 0 \<or> swapWith \<ge> int (length (chatLayers s)) then s
           else
             s\<lparr>chatLayers :=
                 (chatLayers s)[index := chatLayers s ! nat swapWith,
                                nat swapWith := chatLayers s ! index]\<rparr>))"

definition resetSession :: "AppState \<Rightarrow> AppState" where
  "resetSession s =
     (let s1 = s\<lparr>droppedImageSrc := None,
                 imageTransform := \<lparr>x_t = 0, y_t = 0, scale_t = 1\<rparr>,
                 isImageDraggingEnabled := False, isPanning := False\<rparr>;
          s2 = set_chatlogText [] s1;
          s3 = set_parsedChatLines [] s2;
          s4 = s3\<lparr>chatLayers := []\<rparr>;
          (defaultLayer, s5) = createChatLayer (noOptions\<lparr>name_o := Some (js ''Layer 1'')\<rparr>) s4;
          s6 = s5\<lparr>selectedChatLayerId := Some (id_l (chatLayers s5 ! defaultLayer)),
                  chatTransform := transform (chatLayers s5 ! defaultLayer)\<rparr>;
          s7 = s6\<lparr>dropZoneWidth := Some 800, dropZoneHeight := Some 600,
                  chatTransform := \<lparr>x_t = 0, y_t = 0, scale_t = 1\<rparr>,
                  isChatDraggingEnabled := False, isChatPanning := False,
                  censoredRegions := [],
                  selectedText := \<lparr>layerId_s = - 1, lineIndex_s = - 1, startOffset_s = 0,
                                   endOffset_s = 0, text_s = []\<rparr>\<rparr>
      in s7\<lparr>renderKey := renderKey s7 + 1, showNewSessionDialog := False\<rparr>)"

section \<open>Censor regions: \<open>cycleCensorType\<close>\<close>

text \<open>The predicate of the \<open>findIndex\<close> call in \<open>cycleCensorType\<close>: the region has exactly
  the selection's layer, line and offsets.\<close>

definition sameRegion :: "SelectedText \<Rightarrow> CensoredRegion \<Rightarrow> bool" where
  "sameRegion sel region \<longleftrightarrow>
     layerId region = layerId_s sel \<and>
     lineIndex region = lineIndex_s sel \<and>
     startOffset region = startOffset_s sel \<and>
     endOffset region = endOffset_s sel"

definition cycleCensorType :: "AppState \<Rightarrow> AppState" where
  "cycleCensorType s =
     (let sel = selectedText s in
      if lineIndex_s sel = - 1 then s
      else if layerId_s sel = - 1 then s
      else
        (let regions = censoredRegions s;
             regions' =
               (case findIndex (sameRegion sel) regions of
                  None \<Rightarrow>
                    regions @
                      [\<lparr>lineIndex = lineIndex_s sel,
                        startOffset = startOffset_s sel,
                        endOffset = endOffset_s sel,
                        type_r = Invisible,
                        layerId = layerId_s sel\<rparr>]
                | Some existingIndex \<Rightarrow>
                    (let current = regions ! existingIndex in
                     case type_r current of
                       Invisible \<Rightarrow> regions[existingIndex := current\<lparr>type_r := BlackBar\<rparr>]
                     | BlackBar \<Rightarrow> regions[existingIndex := current\<lparr>type_r := Blur\<rparr>]
                     | Blur \<Rightarrow> splice1 existingIndex regions
                     | None_c \<Rightarrow> regions))
         in s\<lparr>censoredRegions := regions', renderKey := renderKey s + 1\<rparr>))"

text \<open>The region that \<open>cycleCensorType\<close> stores for a selection, in a given kind.\<close>

definition regionOf :: "SelectedText \<Rightarrow> CensorType \<Rightarrow> CensoredRegion" where
  "regionOf sel k =
     \<lparr>lineIndex = lineIndex_s sel, startOffset = startOffset_s sel,
      endOffset = endOffset_s sel, type_r = k, layerId = layerId_s sel\<rparr>"

section \<open>Rendering censor regions\<close>

text \<open>The five replacements that escape the censored text for HTML, in the order of the
  source.\<close>

definition literalRegExp :: "string \<Rightarrow> RegExp" where
  "literalRegExp cs = \<lparr>source = str cs, ignoreCase = False\<rparr>"

definition escapeHtml :: "jsstring \<Rightarrow> jsstring" where
  "escapeHtml censoredText =
     replaceAll (literalRegExp [CHR 0x27]) (js ''&#039;'')
       (replaceAll (literalRegExp ''\"'') (js ''&quot;'')
         (replaceAll (literalRegExp ''>'') (js ''&gt;'')
           (replaceAll (literalRegExp ''<'') (js ''&lt;'')
             (replaceAll (literalRegExp ''&'') (js ''&amp;'') censoredText))))"

text \<open>The loop of \<open>applyCensoring\<close> over the sorted regions, with its variables \<open>result\<close>
  and \<open>lastIndex\<close>, and the text that is appended after the loop.\<close>

fun censorLoop :: "jsstring \<Rightarrow> CensoredRegion list \<Rightarrow> jsstring \<Rightarrow> int \<Rightarrow> jsstring" where
  "censorLoop text [] result lastIndex = result @ sliceFrom text lastIndex"
| "censorLoop text (region # regions) result lastIndex =
     (let result1 = result @ slice text lastIndex (startOffset region);
          escapedText = escapeHtml (slice text (startOffset region) (endOffset region));
          result2 =
            (case type_r region of
               Invisible \<Rightarrow>
                 result1 @ js ''<span class=\"censored-invisible\">'' @ escapedText @ js ''</span>''
             | BlackBar \<Rightarrow>
                 result1 @ js ''<span class=\"censored-blackbar\">'' @ escapedText @ js ''</span>''
             | Blur \<Rightarrow>
                 result1 @ js ''<span class=\"censored-blur\">'' @ escapedText @ js ''</span>''
             | None_c \<Rightarrow> result1)
      in censorLoop text regions result2 (endOffset region))"

text \<open>\<open>applyCensoring(text, lineIndex, layerId)\<close>; \<open>Array.prototype.sort\<close> is stable.\<close>

definition applyCensoring :: "jsstring \<Rightarrow> int \<Rightarrow> int \<Rightarrow> AppState \<Rightarrow> jsstring" where
  "applyCensoring text li lid s =
     (let regions =
            sort_key startOffset
              (filter (\<lambda>region. layerId region = lid \<and> lineIndex region = li)
                 (censoredRegions s))
      in if length regions = 0 then text else censorLoop text regions [] 0)"

text \<open>
  The export path paints on a canvas. The model records the calls that
  \<open>drawTextSegment\<close> makes, in their order: \<open>drawTextWithOutline(text, x, y, color,
  censorType)\<close> and \<open>ctx.fillRect(x, y, w, h)\<close>. The width that \<open>ctx.measureText\<close> reports
  for a text is a parameter.
\<close>

datatype DrawCall =
    DrawTextWithOutline jsstring real real jsstring "CensorType option"
  | FillRect real real real real

text \<open>
  One pass through the body of the \<open>while\<close> loop of \<open>drawTextSegment\<close>, on its variables
  \<open>currentX\<close>, \<open>remainingText\<close> and \<open>currentOffset\<close>; \<open>calls\<close> are the calls made so
  far.
\<close>

definition drawTextSegmentBody ::
  "(jsstring \<Rightarrow> real) \<Rightarrow> CensoredRegion list \<Rightarrow> real \<Rightarrow> jsstring \<Rightarrow> int \<Rightarrow> int \<Rightarrow>
   DrawCall list \<times> real \<times> jsstring \<times> int \<Rightarrow> DrawCall list \<times> real \<times> jsstring \<times> int" where
  "drawTextSegmentBody measureText regions yPos col li lid v =
     (case v of (calls, currentX, remainingText, currentOffset) \<Rightarrow>
      (case List.find
              (\<lambda>region.
                 layerId region = lid \<and> lineIndex region = li \<and>
                 ((startOffset region \<ge> currentOffset \<and>
                   startOffset region < currentOffset + int (length remainingText)) \<or>
                  (endOffset region > currentOffset \<and>
                   endOffset region \<le> currentOffset + int (length remainingText))))
              regions of
         Some nextCensor \<Rightarrow>
           (let uncensoredLength = startOffset nextCensor - currentOffset;
                uncensoredText = slice remainingText 0 uncensoredLength;
                calls1 = (if uncensoredLength > 0
                          then calls @ [DrawTextWithOutline uncensoredText currentX yPos col None]
                          else calls);
                currentX1 = (if uncensoredLength > 0
                             then currentX + measureText uncensoredText else currentX);
                currentOffset1 = (if uncensoredLength > 0
                                  then currentOffset + uncensoredLength else currentOffset);
                remainingText1 = (if uncensoredLength > 0
                                  then sliceFrom remainingText uncensoredLength
                                  else remainingText);
                censoredLength = endOffset nextCensor - currentOffset1;
                censoredText = slice remainingText1 0 censoredLength;
                calls2 =
                  (if censoredLength > 0 then
                     (case type_r nextCensor of
                        BlackBar \<Rightarrow>
                          calls1 @ [FillRect (currentX1 - 2) yPos (measureText censoredText + 4) 16]
                      | Blur \<Rightarrow>
                          calls1 @ [DrawTextWithOutline censoredText currentX1 yPos col (Some Blur)]
                      | Invisible \<Rightarrow> calls1
                      | None_c \<Rightarrow> calls1)
                   else calls1);
                currentX2 =
                  (if censoredLength > 0 then
                     (if type_r nextCensor = Invisible
                      then currentX1 + measureText censoredText else currentX1) +
                     measureText censoredText
                   else currentX1);
                currentOffset2 = (if censoredLength > 0
                                  then currentOffset1 + censoredLength else currentOffset1);
                remainingText2 = (if censoredLength > 0
                                  then sliceFrom remainingText1 censoredLength
                                  else remainingText1)
            in (calls2, currentX2, remainingText2, currentOffset2))
       | None \<Rightarrow>
           (calls @ [DrawTextWithOutline remainingText currentX yPos col None],
            currentX + measureText remainingText, [], currentOffset)))"

text \<open>The loop itself; the result is \<open>None\<close> when it does not end.\<close>

partial_function (option) drawTextSegmentLoop ::
  "(DrawCall list \<times> real \<times> jsstring \<times> int \<Rightarrow> DrawCall list \<times> real \<times> jsstring \<times> int) \<Rightarrow>
   DrawCall list \<times> real \<times> jsstring \<times> int \<Rightarrow> DrawCall list option" where
  "drawTextSegmentLoop body v =
     (if length (fst (snd (snd v))) > 0 then drawTextSegmentLoop body (body v)
      else Some (fst v))"

declare drawTextSegmentLoop.simps [code]

text \<open>\<open>drawTextSegment(text, xPos, yPos, color, lineStartPos, lineIndex, layerId)\<close>.\<close>

definition drawTextSegment ::
  "(jsstring \<Rightarrow> real) \<Rightarrow> AppState \<Rightarrow> jsstring \<Rightarrow> real \<Rightarrow> real \<Rightarrow> jsstring \<Rightarrow> int \<Rightarrow> int \<Rightarrow> int \<Rightarrow>
   DrawCall list option" where
  "drawTextSegment measureText s text xPos yPos col lineStartPos li lid =
     drawTextSegmentLoop (drawTextSegmentBody measureText (censoredRegions s) yPos col li lid)
       ([], xPos, text, lineStartPos)"

section \<open>Word wrap in \<open>saveImage\<close>\<close>

text \<open>
  The runs that the loop over \<open>layer.parsedLines\<close> in \<open>saveImage\<close> draws for one line,
  each with the \<open>lineStartPosition\<close> that it passes to \<open>drawTextSegment\<close>. \<open>rawText\<close> is
  the line without its markup, \<open>measureText\<close> the width that the canvas reports, and
  \<open>maxTextWidth\<close> the value of \<open>chatLineWidth\<close>. \<open>wrapWords\<close> is the loop over the words
  with its variables \<open>currentLineText\<close> and \<open>lineStartPosition\<close>, followed by the last
  run, and \<open>testLine\<close> the constant of that name in the loop; the empty string is falsy.
\<close>

definition testLine :: "jsstring \<Rightarrow> jsstring \<Rightarrow> jsstring" where
  "testLine currentLineText word =
     (if currentLineText \<noteq> [] then currentLineText @ js '' '' @ word else word)"

fun wrapWords ::
  "(jsstring \<Rightarrow> real) \<Rightarrow> real \<Rightarrow> jsstring list \<Rightarrow> jsstring \<Rightarrow> int \<Rightarrow> (jsstring \<times> int) list" where
  "wrapWords measureText maxTextWidth [] currentLineText lineStartPosition =
     (if currentLineText \<noteq> [] then [(currentLineText, lineStartPosition)] else [])"
| "wrapWords measureText maxTextWidth (word # ws) currentLineText lineStartPosition =
     (if measureText (testLine currentLineText word) > maxTextWidth \<and> currentLineText \<noteq> [] then
        (currentLineText, lineStartPosition) #
        wrapWords measureText maxTextWidth ws word
          (lineStartPosition + int (length currentLineText) + 1)
      else wrapWords measureText maxTextWidth ws (testLine currentLineText word)
             lineStartPosition)"

definition lineRuns :: "(jsstring \<Rightarrow> real) \<Rightarrow> real \<Rightarrow> jsstring \<Rightarrow> (jsstring \<times> int) list" where
  "lineRuns measureText maxTextWidth rawText =
     (if measureText rawText \<le> maxTextWidth then [(rawText, 0)]
      else wrapWords measureText maxTextWidth (splitOn 32 rawText) [] 0)"

text \<open>\<open>Array.prototype.join\<close>.\<close>

fun joinWith :: "jsstring \<Rightarrow> jsstring list \<Rightarrow> jsstring" where
  "joinWith sep [] = []"
| "joinWith sep [a] = a"
| "joinWith sep (a # b # bs) = a @ sep @ joinWith sep (b # bs)"

section \<open>\<open>buildScreenshotFilename\<close>\<close>

text \<open>The reading of the clock: what the getters of \<open>new Date()\<close> return.\<close>

record JsDate =
  getDate :: nat
  getMonth :: nat
  getFullYear :: int
  getHours :: nat
  getMinutes :: nat

text \<open>The expressions \<open>/[^a-zA-Z0-9\s_-]/g\<close> and \<open>/\s+/g\<close>.\<close>

definition safeThemeChar :: "nat \<Rightarrow> bool" where
  "safeThemeChar c \<longleftrightarrow> isAsciiLetter c \<or> isDigit c \<or> isWhiteSpace c \<or> c = 95 \<or> c = 45"

definition unsafeCharRegExp :: RegExp where
  "unsafeCharRegExp = \<lparr>source = Cls (\<lambda>c. \<not> safeThemeChar c), ignoreCase = False\<rparr>"

definition whiteSpaceRunRegExp :: RegExp where
  "whiteSpaceRunRegExp = \<lparr>source = Plus isWhiteSpace, ignoreCase = False\<rparr>"

definition pad :: "nat \<Rightarrow> jsstring" where
  "pad v = padStart2 (toStringNat v)"

definition safeThemeOf :: "jsstring \<Rightarrow> jsstring" where
  "safeThemeOf theme =
     (let rawTheme = trim theme
      in replaceAll whiteSpaceRunRegExp (js ''-'') (trim (replaceAll unsafeCharRegExp [] rawTheme)))"

definition buildScreenshotFilename :: "JsDate \<Rightarrow> AppState \<Rightarrow> jsstring" where
  "buildScreenshotFilename now s =
     (let datePart = pad (getDate now) @ pad (getMonth now + 1) @ toStringInt (getFullYear now);
          timePart = pad (getHours now) @ pad (getMinutes now);
          safeTheme = safeThemeOf (screenshotTheme s);
          finalTheme = (if safeTheme \<noteq> [] then safeTheme else js ''screenshot'')
      in datePart @ js '' - '' @ timePart @ js '' - '' @ finalTheme @ js ''.png'')"

text \<open>
  Every maximal run of whitespace replaced by one hyphen; and the sanitised theme as the
  specification words it: the characters outside \<open>[A-Za-z0-9 _-]\<close> removed and the
  whitespace runs collapsed to hyphens.
\<close>

function collapseWhitespace :: "jsstring \<Rightarrow> jsstring" where
  "collapseWhitespace [] = []"
| "collapseWhitespace (c # cs) =
     (if isWhiteSpace c then 45 # collapseWhitespace (dropWhile isWhiteSpace cs)
      else c # collapseWhitespace cs)"
  by pat_completeness auto
termination
  by (relation "measure length") (simp_all add: le_imp_less_Suc length_dropWhile_le)

definition specClassChar :: "nat \<Rightarrow> bool" where
  "specClassChar c \<longleftrightarrow> isAsciiLetter c \<or> isDigit c \<or> c = 32 \<or> c = 95 \<or> c = 45"

definition specTheme :: "jsstring \<Rightarrow> jsstring" where
  "specTheme theme = collapseWhitespace (filter specClassChar theme)"

section \<open>Example states\<close>

text \<open>The initial state after the text \<open>hi\<close> has been typed into the layer and the
  layer has been hidden with the eye button.\<close>

definition hiddenState :: AppState where
  "hiddenState =
     updateLayer 0 (\<lambda>l. l\<lparr>text_l := js ''hi'', visible := False\<rparr>) initialState"

text \<open>The chat text of the example in the specification, in the first layer; and
  the same state with that layer hidden and the bars switched on.\<close>

definition exampleText :: jsstring where
  "exampleText = js ''John says: Hi'' @ [10, 10] @ js ''*waves*''"

definition exampleChatState :: AppState where
  "exampleChatState = updateLayer 0 (\<lambda>l. l\<lparr>text_l := exampleText\<rparr>) initialState"

definition exampleHiddenState :: AppState where
  "exampleHiddenState =
     (updateLayer 0 (\<lambda>l. l\<lparr>visible := False\<rparr>) exampleChatState)\<lparr>showBlackBars := True\<rparr>"

section \<open>The operations of the layer store as steps\<close>

text \<open>The operations on the layer store, and a run of them from a state.\<close>

datatype StoreOp =
    Create LayerOptions
  | Add
  | Select int
  | Remove int
  | Move int Direction
  | Reset

fun applyOp :: "StoreOp \<Rightarrow> AppState \<Rightarrow> AppState" where
  "applyOp (Create options) s = snd (createChatLayer options s)"
| "applyOp Add s = addChatLayer s"
| "applyOp (Select i) s = selectChatLayer i s"
| "applyOp (Remove i) s = removeChatLayer i s"
| "applyOp (Move i direction) s = moveChatLayer i direction s"
| "applyOp Reset s = resetSession s"

definition runOps :: "StoreOp list \<Rightarrow> AppState \<Rightarrow> AppState" where
  "runOps ops s = foldl (\<lambda>s' op. applyOp op s') s ops"

text \<open>The state after a second layer has been added to \<open>hiddenState\<close>.\<close>

definition twoLayerState :: AppState where
  "twoLayerState = addChatLayer hiddenState"

text \<open>A radio line whose text contains the cellphone marker.\<close>

definition radioCellphoneLine :: jsstring where
  "radioCellphoneLine = js ''** [S: 1 | CH: 2] (cellphone)''"

text \<open>A theme with a leading space and a tab (code unit 9) between two letters.\<close>

definition tabTheme :: jsstring where
  "tabTheme = js '' a'' @ [9] @ js ''b''"

text \<open>Two overlapping regions on line 0 of layer 1: the region of the offsets 3 to 8
  was made first, the region of the offsets 0 to 5 second.\<close>

definition overlapState :: AppState where
  "overlapState =
     initialState\<lparr>censoredRegions :=
       [\<lparr>lineIndex = 0, startOffset = 3, endOffset = 8, type_r = BlackBar, layerId = 1\<rparr>,
        \<lparr>lineIndex = 0, startOffset = 0, endOffset = 5, type_r = Invisible, layerId = 1\<rparr>]\<rparr>"

text \<open>A canvas on which every code unit is seven pixels wide, and a line that starts
  with a space and is wider than 300 pixels on it.\<close>

definition sevenPixels :: "jsstring \<Rightarrow> real" where
  "sevenPixels t = 7 * real (length t)"

definition indentedLine :: jsstring where
  "indentedLine = js '' abcdefghi abcdefghi abcdefghi abcdefghi abcdefghi''"

section \<open>Lemmas about the array helpers\<close>

lemma findIndex_None_iff: "findIndex P xs = None \<longleftrightarrow> (\<forall>a\<in>set xs. \<not> P a)"
  by (induction xs) auto

lemma findIndex_Some_D:
  "findIndex P xs = Some i \<Longrightarrow> i < length xs \<and> P (xs ! i) \<and> (\<forall>j<i. \<not> P (xs ! j))"
proof (induction xs arbitrary: i)
  case Nil
  then show ?case by simp
next
  case (Cons a as)
  show ?case
  proof (cases "P a")
    case True
    with Cons.prems show ?thesis by simp
  next
    case False
    with Cons.prems obtain k where k: "findIndex P as = Some k" "i = Suc k" by auto
    from Cons.IH [OF k(1)] False k(2) show ?thesis
      by (auto simp: nth_Cons split: nat.splits)
  qed
qed

lemma findIndex_snoc:
  "(\<forall>a\<in>set xs. \<not> P a) \<Longrightarrow> P b \<Longrightarrow> findIndex P (xs @ [b]) = Some (length xs)"
  by (induction xs) auto

lemma sameRegion_regionOf [simp]: "sameRegion sel (regionOf sel k)"
  by (simp add: sameRegion_def regionOf_def)

lemma sameRegion_type_update [simp]: "sameRegion sel (r\<lparr>type_r := k\<rparr>) = sameRegion sel r"
  by (simp add: sameRegion_def)

lemma regionOf_type_update [simp]: "(regionOf sel k)\<lparr>type_r := k'\<rparr> = regionOf sel k'"
  by (simp add: regionOf_def)

lemma type_r_regionOf [simp]: "type_r (regionOf sel k) = k"
  by (simp add: regionOf_def)

lemma filter_update_same:
  "i < length xs \<Longrightarrow> P (xs ! i) = P b \<Longrightarrow> \<not> P b \<Longrightarrow> filter P (xs[i := b]) = filter P xs"
proof (induction xs arbitrary: i)
  case Nil
  then show ?case by simp
next
  case (Cons a as)
  then show ?case by (cases i) auto
qed

lemma filter_splice1:
  "i < length xs \<Longrightarrow> \<not> P (xs ! i) \<Longrightarrow> filter P (splice1 i xs) = filter P xs"
proof (induction xs arbitrary: i)
  case Nil
  then show ?case by simp
next
  case (Cons a as)
  then show ?case by (cases i) (auto simp: splice1_def)
qed

lemma cycle_absent:
  assumes "lineIndex_s (selectedText s) \<noteq> - 1" "layerId_s (selectedText s) \<noteq> - 1"
    and "\<forall>r\<in>set (censoredRegions s). \<not> sameRegion (selectedText s) r"
  shows "cycleCensorType s =
    s\<lparr>censoredRegions := censoredRegions s @ [regionOf (selectedText s) Invisible],
      renderKey := renderKey s + 1\<rparr>"
proof -
  from assms(3) have "findIndex (sameRegion (selectedText s)) (censoredRegions s) = None"
    by (simp add: findIndex_None_iff)
  with assms(1,2) show ?thesis
    by (simp add: cycleCensorType_def Let_def regionOf_def)
qed

lemma cycle_last:
  assumes "lineIndex_s (selectedText s) \<noteq> - 1" "layerId_s (selectedText s) \<noteq> - 1"
    and "\<forall>r\<in>set rs. \<not> sameRegion (selectedText s) r"
    and "censoredRegions s = rs @ [regionOf (selectedText s) k]"
  shows "censoredRegions (cycleCensorType s) =
    (case k of Invisible \<Rightarrow> rs @ [regionOf (selectedText s) BlackBar]
     | BlackBar \<Rightarrow> rs @ [regionOf (selectedText s) Blur]
     | Blur \<Rightarrow> rs
     | None_c \<Rightarrow> rs @ [regionOf (selectedText s) None_c])"
    and "selectedText (cycleCensorType s) = selectedText s"
proof -
  have "findIndex (sameRegion (selectedText s)) (censoredRegions s) = Some (length rs)"
    using assms(3,4) by (simp add: findIndex_snoc)
  with assms(1,2,4) show "censoredRegions (cycleCensorType s) =
    (case k of Invisible \<Rightarrow> rs @ [regionOf (selectedText s) BlackBar]
     | BlackBar \<Rightarrow> rs @ [regionOf (selectedText s) Blur]
     | Blur \<Rightarrow> rs
     | None_c \<Rightarrow> rs @ [regionOf (selectedText s) None_c])"
    by (cases k) (simp_all add: cycleCensorType_def Let_def splice1_def)
  show "selectedText (cycleCensorType s) = selectedText s"
    by (simp add: cycleCensorType_def Let_def)
qed

lemma cycle_selectedText [simp]: "selectedText (cycleCensorType s) = selectedText s"
  by (simp add: cycleCensorType_def Let_def)

lemma cycle_others:
  "filter (\<lambda>r. \<not> sameRegion (selectedText s) r) (censoredRegions (cycleCensorType s)) =
   filter (\<lambda>r. \<not> sameRegion (selectedText s) r) (censoredRegions s)"
proof (cases "findIndex (sameRegion (selectedText s)) (censoredRegions s)")
  case None
  then show ?thesis
    by (simp add: cycleCensorType_def Let_def sameRegion_def)
next
  case (Some i)
  from findIndex_Some_D [OF Some]
  have i: "i < length (censoredRegions s)" "sameRegion (selectedText s) (censoredRegions s ! i)"
    by auto
  show ?thesis
    using Some i
    by (cases "type_r (censoredRegions s ! i)")
      (simp_all add: cycleCensorType_def Let_def filter_update_same filter_splice1)
qed

section \<open>Lemmas about the layer store and \<open>parseChatlog\<close>\<close>

lemma findIndex_map: "findIndex P (map f xs) = findIndex (\<lambda>a. P (f a)) xs"
  by (induction xs) auto

lemma findIndex_less: "findIndex P xs = Some i \<Longrightarrow> i < length xs"
  using findIndex_Some_D by fastforce

lemma activeChatLayer_cong:
  assumes "map id_l (chatLayers s') = map id_l (chatLayers s)"
    and "selectedChatLayerId s' = selectedChatLayerId s"
  shows "activeChatLayer s' = activeChatLayer s"
proof -
  have e: "(chatLayers s' = []) = (chatLayers s = [])"
    using assms(1) by (metis map_is_Nil_conv)
  have "findIndex (\<lambda>l. id_l l = a) (chatLayers s') = findIndex (\<lambda>l. id_l l = a) (chatLayers s)" for a
    using assms(1) findIndex_map [of "\<lambda>v. v = a" id_l] by metis
  with e assms(2) show ?thesis
    by (simp add: activeChatLayer_def split: option.splits)
qed

lemma activeChatLayer_less: "activeChatLayer s = Some i \<Longrightarrow> i < length (chatLayers s)"
  by (auto simp: activeChatLayer_def split: if_splits option.splits dest: findIndex_less)

lemma activeChatLayer_None: "activeChatLayer s = None \<longleftrightarrow> chatLayers s = []"
  by (auto simp: activeChatLayer_def split: option.splits)

lemma map_id_l_update:
  "id_l (f (xs ! i)) = id_l (xs ! i) \<Longrightarrow> map id_l (xs[i := f (xs ! i)]) = map id_l xs"
  by (metis list_update_id map_update)

lemma activeChatLayer_updateLayer:
  "(\<And>l. id_l (f l) = id_l l) \<Longrightarrow> activeChatLayer (updateLayer i f s) = activeChatLayer s"
  by (rule activeChatLayer_cong) (simp_all add: updateLayer_def map_id_l_update)

lemma ensureActiveLayer_nonempty:
  "chatLayers s \<noteq> [] \<Longrightarrow> ensureActiveLayer s = (the (activeChatLayer s), s)"
  by (cases "activeChatLayer s") (simp_all add: ensureActiveLayer_def activeChatLayer_None)

lemma ensureActiveLayer_empty:
  "chatLayers s = [] \<Longrightarrow>
   fst (ensureActiveLayer s) = 0 \<and>
   length (chatLayers (snd (ensureActiveLayer s))) = 1 \<and>
   activeChatLayer (snd (ensureActiveLayer s)) = Some 0"
  by (simp add: ensureActiveLayer_def activeChatLayer_def createChatLayer_def Let_def)

lemma chatLayers_updateLayer [simp]:
  "chatLayers (updateLayer i f s) = (chatLayers s)[i := f (chatLayers s ! i)]"
  by (simp add: updateLayer_def)

lemma updateLayer_fields [simp]:
  "selectedChatLayerId (updateLayer i f s) = selectedChatLayerId s"
  "stripTimestamps (updateLayer i f s) = stripTimestamps s"
  "characterName (updateLayer i f s) = characterName s"
  "censoredRegions (updateLayer i f s) = censoredRegions s"
  "selectedText (updateLayer i f s) = selectedText s"
  "nextChatLayerId (updateLayer i f s) = nextChatLayerId s"
  by (simp_all add: updateLayer_def)

lemma set_parsedChatLines_fields [simp]:
  "selectedChatLayerId (set_parsedChatLines v s) = selectedChatLayerId s"
  "stripTimestamps (set_parsedChatLines v s) = stripTimestamps s"
  "characterName (set_parsedChatLines v s) = characterName s"
  "censoredRegions (set_parsedChatLines v s) = censoredRegions s"
  "selectedText (set_parsedChatLines v s) = selectedText s"
  "nextChatLayerId (set_parsedChatLines v s) = nextChatLayerId s"
  by (simp_all add: set_parsedChatLines_def split: option.splits)

lemma set_chatlogText_fields [simp]:
  "selectedChatLayerId (set_chatlogText v s) = selectedChatLayerId s"
  "stripTimestamps (set_chatlogText v s) = stripTimestamps s"
  "characterName (set_chatlogText v s) = characterName s"
  "censoredRegions (set_chatlogText v s) = censoredRegions s"
  "selectedText (set_chatlogText v s) = selectedText s"
  "nextChatLayerId (set_chatlogText v s) = nextChatLayerId s"
  by (simp_all add: set_chatlogText_def split: option.splits)

lemma parseChatlog_eq:
  "parseChatlog layer s =
     (let k = parseTarget layer s; s1 = parseState layer s;
          parsed = parsedLinesOf (stripTimestamps s1) (characterName s1) (text_l (chatLayers s1 ! k));
          s4 = set_parsedChatLines parsed
                 (updateLayer k (\<lambda>l. l\<lparr>visible := True, parsedLines := parsed\<rparr>) s1)
      in s4\<lparr>renderKey := renderKey s4 + 1\<rparr>)"
proof -
  have upd: "updateLayer k (\<lambda>l. l\<lparr>parsedLines := p\<rparr>) (updateLayer k (\<lambda>l. l\<lparr>visible := True\<rparr>) t) =
      updateLayer k (\<lambda>l. l\<lparr>visible := True, parsedLines := p\<rparr>) t" for k p t
    by (cases "k < length (chatLayers t)") (simp_all add: updateLayer_def list_update_beyond)
  have tx: "text_l ((chatLayers t)[k := (chatLayers t ! k)\<lparr>visible := True\<rparr>] ! k) = text_l (chatLayers t ! k)" for k t
    by (cases "k < length (chatLayers t)") (simp_all add: list_update_beyond)
  have tgt: "(case (case layer of None \<Rightarrow> activeChatLayer s | Some l \<Rightarrow> Some l) of
               Some l \<Rightarrow> (l, s) | None \<Rightarrow> ensureActiveLayer s) =
             (parseTarget layer s, parseState layer s)"
    by (cases layer; cases "activeChatLayer s")
       (auto simp: parseTarget_def parseState_def activeChatLayer_None [symmetric])
  show ?thesis
    apply (simp only: parseChatlog_def Let_def)
    apply (simp only: tgt prod.case)
    apply (simp add: upd tx parsedLinesOf_def Let_def)
    done
qed

lemma parseState_fields [simp]:
  "stripTimestamps (parseState layer s) = stripTimestamps s"
  "characterName (parseState layer s) = characterName s"
  "censoredRegions (parseState layer s) = censoredRegions s"
  "selectedText (parseState layer s) = selectedText s"
  by (simp_all add: parseState_def ensureActiveLayer_def createChatLayer_def Let_def
      split: option.splits)

lemma parseState_nonempty: "chatLayers s \<noteq> [] \<Longrightarrow> parseState layer s = s"
  by (simp add: parseState_def)

lemma parseTarget_active:
  assumes "validLayer layer s"
  shows "\<exists>a. activeChatLayer (parseState layer s) = Some a \<and>
             a < length (chatLayers (parseState layer s)) \<and>
             parseTarget layer s < length (chatLayers (parseState layer s)) \<and>
             (layer = None \<longrightarrow> a = parseTarget layer s)"
proof (cases layer)
  case None
  show ?thesis
  proof (cases "chatLayers s = []")
    case True
    then have "activeChatLayer s = None" by (simp add: activeChatLayer_None)
    with None True ensureActiveLayer_empty [OF True] show ?thesis
      by (simp add: parseState_def parseTarget_def)
  next
    case False
    then obtain a where a: "activeChatLayer s = Some a"
      using activeChatLayer_None by (cases "activeChatLayer s") auto
    with None False activeChatLayer_less [OF a] show ?thesis
      by (simp add: parseState_def parseTarget_def)
  qed
next
  case (Some l)
  with assms have l: "l < length (chatLayers s)" by (simp add: validLayer_def)
  then have "chatLayers s \<noteq> []" by auto
  then obtain a where a: "activeChatLayer s = Some a"
    using activeChatLayer_None by (cases "activeChatLayer s") auto
  with Some l activeChatLayer_less [OF a] show ?thesis
    by (simp add: parseState_def parseTarget_def)
qed

lemma parse_layers:
  assumes "validLayer layer s"
  shows "chatLayers (parseChatlog layer s) =
     (let L1 = chatLayers (parseState layer s); k = parseTarget layer s;
          L2 = L1[k := (L1 ! k)\<lparr>visible := True, parsedLines := parsedFor layer s\<rparr>];
          a = the (activeChatLayer (parseState layer s))
      in L2[a := (L2 ! a)\<lparr>parsedLines := parsedFor layer s\<rparr>])"
proof -
  from parseTarget_active [OF assms] obtain a where
    a: "activeChatLayer (parseState layer s) = Some a" by blast
  have "activeChatLayer (updateLayer (parseTarget layer s)
          (\<lambda>l. l\<lparr>visible := True, parsedLines := parsedFor layer s\<rparr>) (parseState layer s)) = Some a"
    using a by (simp add: activeChatLayer_updateLayer)
  then show ?thesis
    using a by (simp add: parseChatlog_eq Let_def set_parsedChatLines_def parsedFor_def)
qed

lemma parse_target_layer:
  assumes "validLayer layer s"
  shows "chatLayers (parseChatlog layer s) ! parseTarget layer s =
      (chatLayers (parseState layer s) ! parseTarget layer s)
        \<lparr>visible := True, parsedLines := parsedFor layer s\<rparr>"
    and "length (chatLayers (parseChatlog layer s)) = length (chatLayers (parseState layer s))"
proof -
  from parseTarget_active [OF assms] obtain a where
    a: "activeChatLayer (parseState layer s) = Some a"
      "a < length (chatLayers (parseState layer s))"
      "parseTarget layer s < length (chatLayers (parseState layer s))" by blast
  show "chatLayers (parseChatlog layer s) ! parseTarget layer s =
      (chatLayers (parseState layer s) ! parseTarget layer s)
        \<lparr>visible := True, parsedLines := parsedFor layer s\<rparr>"
    using a by (cases "a = parseTarget layer s") (simp_all add: parse_layers [OF assms] Let_def)
  show "length (chatLayers (parseChatlog layer s)) = length (chatLayers (parseState layer s))"
    by (simp add: parse_layers [OF assms] Let_def)
qed

lemma parse_other_fields [simp]:
  "stripTimestamps (parseChatlog layer s) = stripTimestamps s"
  "characterName (parseChatlog layer s) = characterName s"
  "censoredRegions (parseChatlog layer s) = censoredRegions s"
  "selectedText (parseChatlog layer s) = selectedText s"
  by (simp_all add: parseChatlog_eq Let_def)

lemma parse_selected:
  "selectedChatLayerId (parseChatlog layer s) = selectedChatLayerId (parseState layer s)"
  by (simp add: parseChatlog_eq Let_def)

lemma map_update_same:
  "(\<And>l. g (f l) = g l) \<Longrightarrow> map g (xs[i := f (xs ! i)]) = map g xs"
  by (metis list_update_id map_update)

lemma parse_map_field:
  assumes "validLayer layer s"
    and "\<And>l v p. g (l\<lparr>visible := v, parsedLines := p\<rparr>) = g l"
    and "\<And>l p. g (l\<lparr>parsedLines := p\<rparr>) = g l"
  shows "map g (chatLayers (parseChatlog layer s)) = map g (chatLayers (parseState layer s))"
proof -
  let ?p = "parsedFor layer s"
  let ?L1 = "chatLayers (parseState layer s)"
  let ?k = "parseTarget layer s"
  let ?L2 = "?L1[?k := (\<lambda>l. l\<lparr>visible := True, parsedLines := ?p\<rparr>) (?L1 ! ?k)]"
  let ?a = "the (activeChatLayer (parseState layer s))"
  have "chatLayers (parseChatlog layer s) = ?L2[?a := (\<lambda>l. l\<lparr>parsedLines := ?p\<rparr>) (?L2 ! ?a)]"
    by (simp add: parse_layers [OF assms(1)] Let_def)
  moreover have "map g (?L2[?a := (\<lambda>l. l\<lparr>parsedLines := ?p\<rparr>) (?L2 ! ?a)]) = map g ?L2"
    by (rule map_update_same) (simp add: assms(3))
  moreover have "map g ?L2 = map g ?L1"
    by (rule map_update_same) (simp add: assms(2))
  ultimately show ?thesis by simp
qed

lemma parse_ids:
  assumes "validLayer layer s"
  shows "map id_l (chatLayers (parseChatlog layer s)) = map id_l (chatLayers (parseState layer s))"
    and "map text_l (chatLayers (parseChatlog layer s)) = map text_l (chatLayers (parseState layer s))"
    and "map name_l (chatLayers (parseChatlog layer s)) = map name_l (chatLayers (parseState layer s))"
    and "map transform (chatLayers (parseChatlog layer s)) = map transform (chatLayers (parseState layer s))"
  by (rule parse_map_field [OF assms]; simp)+

lemma parse_twice_target:
  assumes "validLayer layer s"
  shows "validLayer layer (parseChatlog layer s)"
    and "parseState layer (parseChatlog layer s) = parseChatlog layer s"
    and "parseTarget layer (parseChatlog layer s) = parseTarget layer s"
    and "activeChatLayer (parseChatlog layer s) = activeChatLayer (parseState layer s)"
proof -
  let ?s' = "parseChatlog layer s"
  from parseTarget_active [OF assms] obtain a where
    a: "activeChatLayer (parseState layer s) = Some a"
      "a < length (chatLayers (parseState layer s))"
      "parseTarget layer s < length (chatLayers (parseState layer s))"
      "layer = None \<longrightarrow> a = parseTarget layer s" by blast
  have len: "length (chatLayers ?s') = length (chatLayers (parseState layer s))"
    by (rule parse_target_layer(2) [OF assms])
  show v: "validLayer layer ?s'"
    using a(3) len by (cases layer) (simp_all add: validLayer_def parseTarget_def)
  have ne: "chatLayers ?s' \<noteq> []" using a(2) len by auto
  show "parseState layer ?s' = ?s'" by (rule parseState_nonempty [OF ne])
  show act: "activeChatLayer ?s' = activeChatLayer (parseState layer s)"
    by (rule activeChatLayer_cong) (simp_all add: parse_ids(1) [OF assms] parse_selected)
  show "parseTarget layer ?s' = parseTarget layer s"
    using a(1,4) act by (cases layer) (simp_all add: parseTarget_def)
qed

lemma parse_twice_layers:
  assumes "validLayer layer s"
  shows "chatLayers (parseChatlog layer (parseChatlog layer s)) = chatLayers (parseChatlog layer s)"
proof -
  let ?s' = "parseChatlog layer s"
  let ?k = "parseTarget layer s"
  let ?p = "parsedFor layer s"
  let ?R = "chatLayers ?s'"
  note t = parse_twice_target [OF assms]
  from parseTarget_active [OF assms] obtain a where
    a: "activeChatLayer (parseState layer s) = Some a"
      "a < length (chatLayers (parseState layer s))"
      "?k < length (chatLayers (parseState layer s))" by blast
  have len: "length ?R = length (chatLayers (parseState layer s))"
    by (rule parse_target_layer(2) [OF assms])
  have Rk: "?R ! ?k = (chatLayers (parseState layer s) ! ?k)\<lparr>visible := True, parsedLines := ?p\<rparr>"
    by (rule parse_target_layer(1) [OF assms])
  have p': "parsedFor layer ?s' = ?p"
    by (simp add: parsedFor_def t Rk)
  have Ra: "parsedLines (?R ! a) = ?p"
    using a by (simp add: parse_layers [OF assms] Let_def)
  have k_same: "(?R ! ?k)\<lparr>visible := True, parsedLines := ?p\<rparr> = ?R ! ?k"
    by (simp add: Rk)
  have a_same: "(?R ! a)\<lparr>parsedLines := ?p\<rparr> = ?R ! a"
    using Ra by (metis ChatLayer.surjective ChatLayer.update_convs(4))
  show ?thesis
    by (simp add: parse_layers [OF t(1)] Let_def t p' a k_same a_same)
qed

lemma set_chatlogText_layers:
  "chatLayers (set_chatlogText v s) =
     (case activeChatLayer s of
        Some a \<Rightarrow> (chatLayers s)[a := (chatLayers s ! a)\<lparr>text_l := v\<rparr>]
      | None \<Rightarrow> chatLayers s)"
  by (simp add: set_chatlogText_def split: option.splits)

lemma set_parsedChatLines_layers:
  "chatLayers (set_parsedChatLines v s) =
     (case activeChatLayer s of
        Some a \<Rightarrow> (chatLayers s)[a := (chatLayers s ! a)\<lparr>parsedLines := v\<rparr>]
      | None \<Rightarrow> chatLayers s)"
  by (simp add: set_parsedChatLines_def split: option.splits)

lemma nth_update_field:
  assumes "\<And>l. g (f l) = g l"
  shows "g (xs[a := f (xs ! a)] ! k) = g (xs ! k)"
proof (cases "a < length xs")
  case True
  then show ?thesis by (cases "a = k") (simp_all add: assms)
next
  case False
  then show ?thesis by (simp add: list_update_beyond)
qed

lemma set_chatlogText_keeps:
  assumes "\<And>l v. g (l\<lparr>text_l := v\<rparr>) = g l"
  shows "g (chatLayers (set_chatlogText v s) ! k) = g (chatLayers s ! k)"
proof (cases "activeChatLayer s")
  case None
  then show ?thesis by (simp add: set_chatlogText_layers)
next
  case (Some a)
  have "g ((chatLayers s)[a := (\<lambda>l. l\<lparr>text_l := v\<rparr>) (chatLayers s ! a)] ! k) = g (chatLayers s ! k)"
    by (rule nth_update_field) (simp add: assms)
  with Some show ?thesis by (simp add: set_chatlogText_layers)
qed

lemma set_parsedChatLines_keeps:
  assumes "\<And>l v. g (l\<lparr>parsedLines := v\<rparr>) = g l"
  shows "g (chatLayers (set_parsedChatLines v s) ! k) = g (chatLayers s ! k)"
proof (cases "activeChatLayer s")
  case None
  then show ?thesis by (simp add: set_parsedChatLines_layers)
next
  case (Some a)
  have "g ((chatLayers s)[a := (\<lambda>l. l\<lparr>parsedLines := v\<rparr>) (chatLayers s ! a)] ! k) = g (chatLayers s ! k)"
    by (rule nth_update_field) (simp add: assms)
  with Some show ?thesis by (simp add: set_parsedChatLines_layers)
qed

lemma set_length [simp]:
  "length (chatLayers (set_chatlogText v s)) = length (chatLayers s)"
  "length (chatLayers (set_parsedChatLines w s)) = length (chatLayers s)"
  by (simp_all add: set_chatlogText_layers set_parsedChatLines_layers split: option.splits)

lemma parse_visible:
  assumes "validLayer layer s"
  shows "parseTarget layer s < length (chatLayers (parseChatlog layer s))"
    and "visible (chatLayers (parseChatlog layer s) ! parseTarget layer s)"
proof -
  from parseTarget_active [OF assms]
  have "parseTarget layer s < length (chatLayers (parseState layer s))" by blast
  then show "parseTarget layer s < length (chatLayers (parseChatlog layer s))"
    by (simp add: parse_target_layer [OF assms])
  show "visible (chatLayers (parseChatlog layer s) ! parseTarget layer s)"
    by (simp add: parse_target_layer [OF assms])
qed

lemma select_found_layers:
  assumes "findIndex (\<lambda>l. id_l l = i) (chatLayers s) = Some k"
  shows "chatLayers (selectChatLayer i s) =
    (let s1 = s\<lparr>selectedChatLayerId := Some i\<rparr>;
         s2 = (if text_l (chatLayers s ! k) \<noteq> [] \<and> length (parsedLines (chatLayers s ! k)) = 0
               then parseChatlog (Some k) s1 else s1);
         s3 = set_chatlogText (text_l (chatLayers s2 ! k)) s2
     in chatLayers (set_parsedChatLines (parsedLines (chatLayers s3 ! k)) s3))"
  using assms by (simp add: selectChatLayer_def Let_def)

lemma select_parses_visible:
  assumes "findIndex (\<lambda>l. id_l l = i) (chatLayers s) = Some k"
    and "text_l (chatLayers s ! k) \<noteq> []" and "length (parsedLines (chatLayers s ! k)) = 0"
  shows "visible (chatLayers (selectChatLayer i s) ! k)"
proof -
  let ?s1 = "s\<lparr>selectedChatLayerId := Some i\<rparr>"
  have v: "validLayer (Some k) ?s1"
    using findIndex_less [OF assms(1)] by (simp add: validLayer_def)
  have "visible (chatLayers (parseChatlog (Some k) ?s1) ! k)"
    using parse_visible(2) [OF v] by (simp add: parseTarget_def)
  then show ?thesis
    using assms(2,3)
    by (simp add: select_found_layers [OF assms(1)] Let_def
        set_parsedChatLines_keeps set_chatlogText_keeps)
qed

lemma restore_visible: "visible (chatLayers (restoreLayer saved s) ! length (chatLayers s))"
proof -
  let ?s1 = "snd (createChatLayer (saved\<lparr>parsedLines_o := None\<rparr>) s)"
  have f: "fst (createChatLayer (saved\<lparr>parsedLines_o := None\<rparr>) s) = length (chatLayers s)"
    by (simp add: createChatLayer_def Let_def)
  have "length (chatLayers ?s1) = Suc (length (chatLayers s))"
    by (simp add: createChatLayer_def Let_def)
  then have v: "validLayer (Some (length (chatLayers s))) ?s1"
    by (simp add: validLayer_def)
  have "visible (chatLayers (parseChatlog (Some (length (chatLayers s))) ?s1) ! length (chatLayers s))"
    using parse_visible(2) [OF v] by (simp add: parseTarget_def)
  then show ?thesis
    using f by (simp add: restoreLayer_def Let_def case_prod_beta)
qed

lemma joinWith_Cons: "joinWith sep (a # rest) = (if rest = [] then a else a @ sep @ joinWith sep rest)"
  by (cases rest) simp_all

lemma splitAcc_nonempty: "splitAcc c acc s \<noteq> []"
  by (induction s arbitrary: acc) auto

lemma joinWith_splitAcc: "joinWith [c] (splitAcc c acc s) = rev acc @ s"
proof (induction s arbitrary: acc)
  case Nil
  show ?case by simp
next
  case (Cons a as)
  show ?case
  proof (cases "a = c")
    case True
    then show ?thesis
      using Cons.IH [of "[]"] by (simp add: joinWith_Cons splitAcc_nonempty)
  next
    case False
    then show ?thesis
      using Cons.IH [of "a # acc"] by simp
  qed
qed

lemma splitAcc_pieces: "c \<notin> set acc \<Longrightarrow> piece \<in> set (splitAcc c acc s) \<Longrightarrow> c \<notin> set piece"
proof (induction s arbitrary: acc)
  case Nil
  then show ?case by simp
next
  case (Cons a as)
  show ?case
  proof (cases "a = c")
    case True
    with Cons.prems have "piece = rev acc \<or> piece \<in> set (splitAcc c [] as)" by simp
    then show ?thesis
    proof
      assume "piece = rev acc"
      with Cons.prems(1) show ?thesis by simp
    next
      assume "piece \<in> set (splitAcc c [] as)"
      then show ?thesis using Cons.IH [of "[]"] by simp
    qed
  next
    case False
    with Cons.prems show ?thesis using Cons.IH [of "a # acc"] by simp
  qed
qed

lemma length_mapIndexFrom [simp]: "length (mapIndexFrom f k xs) = length xs"
  by (induction xs arbitrary: k) simp_all

lemma nth_mapIndexFrom: "i < length xs \<Longrightarrow> mapIndexFrom f k xs ! i = f (xs ! i) (k + i)"
proof (induction xs arbitrary: k i)
  case Nil
  then show ?case by simp
next
  case (Cons a as)
  then show ?case by (cases i) simp_all
qed

lemma id_p_processLine [simp]: "id_p (processLine strip name line index) = index"
  by (simp add: processLine_def Let_def case_prod_beta)

lemma ids_mapIndexFrom:
  "map id_p (mapIndexFrom (processLine strip name) k xs) = [k..<k + length xs]"
proof (induction xs arbitrary: k)
  case Nil
  show ?case by simp
next
  case (Cons a as)
  have "k < k + length (a # as)" by simp
  then have "[k..<k + length (a # as)] = k # [Suc k..<k + length (a # as)]"
    by (rule upt_conv_Cons)
  moreover have "k + length (a # as) = Suc k + length as" by simp
  ultimately have "[k..<k + length (a # as)] = k # [Suc k..<Suc k + length as]"
    by (simp only:)
  with Cons.IH [of "Suc k"] show ?case by (simp only: mapIndexFrom.simps list.map id_p_processLine)
qed

lemma survivingLines_empty [simp]: "survivingLines [] = []"
  by (simp add: survivingLines_def splitOn_def trim_def)

lemma length_parsedLinesOf:
  "length (parsedLinesOf strip name sourceText) = length (survivingLines sourceText)"
  by (simp add: parsedLinesOf_def mapIndex_def)

lemma survivingLines_example:
  "survivingLines exampleText = [js ''John says: Hi'', js ''*waves*'']"
  by (simp add: survivingLines_def exampleText_def splitOn_def trim_def js_def isWhiteSpace_def)

lemma exampleChatState_layer:
  "validLayer None exampleChatState"
  "parseTarget None exampleChatState = 0"
  "parseState None exampleChatState = exampleChatState"
  "text_l (chatLayers exampleChatState ! 0) = exampleText"
  "stripTimestamps exampleChatState = False"
  "characterName exampleChatState = []"
  by (simp_all add: exampleChatState_def initialState_def emptyState_def createChatLayer_def
      noOptions_def validLayer_def parseTarget_def parseState_def activeChatLayer_def
      updateLayer_def orString_def)

lemma exampleHiddenState_layer:
  "validLayer (Some 0) exampleHiddenState"
  "parseTarget (Some 0) exampleHiddenState = 0"
  "parseState (Some 0) exampleHiddenState = exampleHiddenState"
  "text_l (chatLayers exampleHiddenState ! 0) = exampleText"
  "stripTimestamps exampleHiddenState = False"
  "characterName exampleHiddenState = []"
  by (simp_all add: exampleHiddenState_def exampleChatState_def initialState_def emptyState_def
      createChatLayer_def noOptions_def validLayer_def parseTarget_def parseState_def
      updateLayer_def orString_def)

lemma active_selected:
  assumes "findIndex (\<lambda>l. id_l l = i) (chatLayers s) = Some k"
    and "selectedChatLayerId s = Some i"
  shows "activeChatLayer s = Some k"
proof -
  from findIndex_less [OF assms(1)] have "chatLayers s \<noteq> []" by auto
  with assms show ?thesis by (simp add: activeChatLayer_def)
qed

lemma set_chatlogText_own:
  assumes "activeChatLayer s = Some k"
  shows "set_chatlogText (text_l (chatLayers s ! k)) s = s"
  using assms by (simp add: set_chatlogText_def updateLayer_def)

lemma set_parsedChatLines_own:
  assumes "activeChatLayer s = Some k"
  shows "set_parsedChatLines (parsedLines (chatLayers s ! k)) s = s"
  using assms by (simp add: set_parsedChatLines_def updateLayer_def)

lemma parse_selected_layers:
  assumes "activeChatLayer s = Some k"
  shows "chatLayers (parseChatlog (Some k) s) =
     (chatLayers s)[k := (chatLayers s ! k)
        \<lparr>visible := True,
         parsedLines := parsedLinesOf (stripTimestamps s) (characterName s)
                          (text_l (chatLayers s ! k))\<rparr>]"
    and "activeChatLayer (parseChatlog (Some k) s) = Some k"
proof -
  have k: "k < length (chatLayers s)" by (rule activeChatLayer_less [OF assms])
  then have v: "validLayer (Some k) s" by (simp add: validLayer_def)
  have ps: "parseState (Some k) s = s" by (simp add: parseState_def)
  have pt: "parseTarget (Some k) s = k" by (simp add: parseTarget_def)
  show "chatLayers (parseChatlog (Some k) s) =
     (chatLayers s)[k := (chatLayers s ! k)
        \<lparr>visible := True,
         parsedLines := parsedLinesOf (stripTimestamps s) (characterName s)
                          (text_l (chatLayers s ! k))\<rparr>]"
    using k by (simp add: parse_layers [OF v] Let_def ps pt assms parsedFor_def)
  show "activeChatLayer (parseChatlog (Some k) s) = Some k"
    using parse_twice_target(4) [OF v] by (simp add: ps assms)
qed

lemma select_found:
  assumes "findIndex (\<lambda>l. id_l l = i) (chatLayers s) = Some k"
  shows "chatLayers (selectChatLayer i s) =
     (if text_l (chatLayers s ! k) \<noteq> [] \<and> length (parsedLines (chatLayers s ! k)) = 0
      then (chatLayers s)[k := (chatLayers s ! k)
             \<lparr>visible := True,
              parsedLines := parsedLinesOf (stripTimestamps s) (characterName s)
                               (text_l (chatLayers s ! k))\<rparr>]
      else chatLayers s)"
proof -
  let ?s1 = "s\<lparr>selectedChatLayerId := Some i\<rparr>"
  let ?s2 = "if text_l (chatLayers s ! k) \<noteq> [] \<and> length (parsedLines (chatLayers s ! k)) = 0
             then parseChatlog (Some k) ?s1 else ?s1"
  have a1: "activeChatLayer ?s1 = Some k"
    by (rule active_selected [of i]) (simp_all add: assms)
  have a2: "activeChatLayer ?s2 = Some k"
    using a1 parse_selected_layers(2) [OF a1] by simp
  have "chatLayers (selectChatLayer i s) =
      chatLayers (set_parsedChatLines
        (parsedLines (chatLayers (set_chatlogText (text_l (chatLayers ?s2 ! k)) ?s2) ! k))
        (set_chatlogText (text_l (chatLayers ?s2 ! k)) ?s2))"
    using assms by (simp add: selectChatLayer_def Let_def)
  also have "\<dots> = chatLayers ?s2"
    by (simp only: set_chatlogText_own [OF a2] set_parsedChatLines_own [OF a2])
  finally show ?thesis
    using parse_selected_layers(1) [OF a1] by simp
qed

lemma select_censoredRegions [simp]:
  "censoredRegions (selectChatLayer i s) = censoredRegions s"
  by (simp add: selectChatLayer_def Let_def case_prod_beta ensureActiveLayer_def
      createChatLayer_def split: option.splits)

lemma select_flags [simp]:
  "stripTimestamps (selectChatLayer i s) = stripTimestamps s"
  "characterName (selectChatLayer i s) = characterName s"
  by (simp_all add: selectChatLayer_def Let_def case_prod_beta ensureActiveLayer_def
      createChatLayer_def split: option.splits)

lemma ensureActiveLayer_layers: "chatLayers (snd (ensureActiveLayer s)) \<noteq> []"
proof (cases "chatLayers s = []")
  case True
  from ensureActiveLayer_empty [OF True]
  have "length (chatLayers (snd (ensureActiveLayer s))) = 1" by simp
  then show ?thesis by auto
next
  case False
  then show ?thesis by (simp add: ensureActiveLayer_nonempty)
qed

lemma select_nonempty: "chatLayers (selectChatLayer i s) \<noteq> []"
proof (cases "findIndex (\<lambda>l. id_l l = i) (chatLayers s)")
  case None
  have "length (chatLayers (selectChatLayer i s)) = length (chatLayers (snd (ensureActiveLayer s)))"
    using None by (simp add: selectChatLayer_def Let_def case_prod_beta)
  with ensureActiveLayer_layers [of s] show ?thesis by auto
next
  case (Some k)
  from findIndex_less [OF Some] have "chatLayers s \<noteq> []" by auto
  then show ?thesis by (simp add: select_found [OF Some])
qed

lemma length_splice1: "i < length xs \<Longrightarrow> length (splice1 i xs) = length xs - 1"
  by (simp add: splice1_def)

lemma remove_found:
  assumes "1 < length (chatLayers s)" "findIndex (\<lambda>l. id_l l = i) (chatLayers s) = Some index"
  shows "removeChatLayer i s =
     selectChatLayer (id_l (splice1 index (chatLayers s) ! (index - 1)))
       (s\<lparr>chatLayers := splice1 index (chatLayers s),
          censoredRegions := filter (\<lambda>region. layerId region \<noteq> i) (censoredRegions s)\<rparr>)"
  using assms by (cases index) (simp_all add: removeChatLayer_def Let_def)

lemma remove_nonempty: "chatLayers s \<noteq> [] \<Longrightarrow> chatLayers (removeChatLayer i s) \<noteq> []"
  by (simp add: removeChatLayer_def Let_def select_nonempty split: option.splits)

lemma move_length [simp]: "length (chatLayers (moveChatLayer i d s)) = length (chatLayers s)"
  by (simp add: moveChatLayer_def Let_def split: option.splits)

lemma reset_layers: "length (chatLayers (resetSession s)) = 1"
  by (simp add: resetSession_def Let_def case_prod_beta createChatLayer_def)

lemma create_layers: "length (chatLayers (snd (createChatLayer options s))) = Suc (length (chatLayers s))"
  by (simp add: createChatLayer_def Let_def)

lemma applyOp_nonempty: "chatLayers s \<noteq> [] \<Longrightarrow> chatLayers (applyOp op s) \<noteq> []"
proof (cases op)
  case (Create options)
  then show ?thesis using create_layers [of options s] by auto
next
  case Add
  then show ?thesis by (simp add: addChatLayer_def case_prod_beta select_nonempty)
next
  case (Select i)
  then show ?thesis by (simp add: select_nonempty)
next
  case (Remove i)
  assume "chatLayers s \<noteq> []"
  with Remove show ?thesis by (simp add: remove_nonempty)
next
  case (Move i d)
  assume "chatLayers s \<noteq> []"
  then have "chatLayers (moveChatLayer i d s) \<noteq> []"
    by (metis move_length length_0_conv)
  with Move show ?thesis by simp
next
  case Reset
  then show ?thesis using reset_layers [of s] by auto
qed

lemma runOps_nonempty: "chatLayers s \<noteq> [] \<Longrightarrow> chatLayers (runOps ops s) \<noteq> []"
  unfolding runOps_def
  by (induction ops arbitrary: s) (simp_all add: applyOp_nonempty)

lemma initialState_layers: "length (chatLayers initialState) = 1"
  by (simp add: initialState_def emptyState_def createChatLayer_def noOptions_def)

lemma remove_layers:
  assumes "1 < length (chatLayers s)" "findIndex (\<lambda>l. id_l l = i) (chatLayers s) = Some index"
    and "findIndex (\<lambda>l. id_l l = id_l (splice1 index (chatLayers s) ! (index - 1)))
           (splice1 index (chatLayers s)) = Some k"
  shows "chatLayers (removeChatLayer i s) =
     (let remaining = splice1 index (chatLayers s)
      in if text_l (remaining ! k) \<noteq> [] \<and> length (parsedLines (remaining ! k)) = 0
         then remaining[k := (remaining ! k)
                \<lparr>visible := True,
                 parsedLines := parsedLinesOf (stripTimestamps s) (characterName s)
                                  (text_l (remaining ! k))\<rparr>]
         else remaining)"
proof -
  let ?s2 = "s\<lparr>chatLayers := splice1 index (chatLayers s),
          censoredRegions := filter (\<lambda>region. layerId region \<noteq> i) (censoredRegions s)\<rparr>"
  have f: "findIndex (\<lambda>l. id_l l = id_l (splice1 index (chatLayers s) ! (index - 1)))
      (chatLayers ?s2) = Some k"
    using assms(3) by simp
  show ?thesis
    using select_found [OF f] by (simp add: remove_found [OF assms(1,2)] Let_def)
qed

lemma findIndex_member:
  "j < length xs \<Longrightarrow> P (xs ! j) \<Longrightarrow> \<exists>k. findIndex P xs = Some k \<and> k \<le> j"
proof (induction xs arbitrary: j)
  case Nil
  then show ?case by simp
next
  case (Cons a as)
  show ?case
  proof (cases "P a")
    case True
    then show ?thesis by simp
  next
    case False
    with Cons.prems obtain j' where j': "j = Suc j'" by (cases j) auto
    with Cons.prems have "j' < length as" "P (as ! j')" by simp_all
    from Cons.IH [OF this] obtain k where "findIndex P as = Some k" "k \<le> j'" by blast
    with False j' show ?thesis by simp
  qed
qed

lemma twoLayerState_layers:
  "chatLayers twoLayerState =
     [\<lparr>id_l = 1, name_l = js ''Layer 1'', text_l = js ''hi'', parsedLines = [],
       transform = \<lparr>x_t = 0, y_t = 0, scale_t = 1\<rparr>, visible = False\<rparr>,
      \<lparr>id_l = 2, name_l = js ''Layer 2'', text_l = [], parsedLines = [],
       transform = \<lparr>x_t = 0, y_t = 0, scale_t = 1\<rparr>, visible = True\<rparr>]"
proof -
  let ?c = "snd (createChatLayer noOptions hiddenState)"
  have c: "chatLayers ?c =
     [\<lparr>id_l = 1, name_l = js ''Layer 1'', text_l = js ''hi'', parsedLines = [],
       transform = \<lparr>x_t = 0, y_t = 0, scale_t = 1\<rparr>, visible = False\<rparr>,
      \<lparr>id_l = 2, name_l = js ''Layer 2'', text_l = [], parsedLines = [],
       transform = \<lparr>x_t = 0, y_t = 0, scale_t = 1\<rparr>, visible = True\<rparr>]"
    by (simp add: createChatLayer_def hiddenState_def initialState_def emptyState_def
        noOptions_def updateLayer_def orString_def Let_def toStringNat.simps js_def)
  have f: "findIndex (\<lambda>l. id_l l = 2) (chatLayers ?c) = Some 1"
    by (simp add: c)
  have "chatLayers twoLayerState = chatLayers (selectChatLayer 2 ?c)"
    by (simp add: twoLayerState_def addChatLayer_def case_prod_beta createChatLayer_def Let_def
        hiddenState_def initialState_def emptyState_def noOptions_def updateLayer_def)
  also have "\<dots> = chatLayers ?c"
    using select_found [OF f] by (simp add: c)
  finally show ?thesis by (simp add: c)
qed

lemmas mapping_defs = radioMapping_def cellphoneMapping_def plainMapping_def splitMapping_def

lemma rule_flags [simp]:
  "fullLine radioMapping" "\<not> checkPlayerName radioMapping"
  "fullLine cellphoneMapping" "checkPlayerName cellphoneMapping"
  by (simp_all add: radioMapping_def cellphoneMapping_def plainMapping_def)

lemma find_player_rule:
  "List.find (\<lambda>mapping. checkPlayerName mapping \<and> test (pattern mapping) t) colorMappings =
     (if test (pattern cellphoneMapping) t then Some cellphoneMapping else None)"
  by (simp add: colorMappings_def plainMapping_def splitMapping_def)

lemma find_fullLine_rule:
  "List.find (\<lambda>mapping. fullLine mapping \<and> \<not> checkPlayerName mapping \<and> test (pattern mapping) t)
     colorMappings =
     (if test (pattern radioMapping) t then Some radioMapping else None)"
  by (simp add: colorMappings_def plainMapping_def splitMapping_def)

lemma fullLine_rules_all:
  "list_all (\<lambda>m. fullLine m \<longrightarrow> m = radioMapping \<or> m = cellphoneMapping) colorMappings"
  by (simp add: colorMappings_def plainMapping_def splitMapping_def)

lemma fullLine_rules:
  "m \<in> set colorMappings \<Longrightarrow> fullLine m \<Longrightarrow> m = radioMapping \<or> m = cellphoneMapping"
  using fullLine_rules_all by (simp add: list_all_iff)

lemma player_rules_all:
  "list_all (\<lambda>m. checkPlayerName m \<longrightarrow> m = cellphoneMapping) colorMappings"
  by (simp add: colorMappings_def plainMapping_def splitMapping_def)

lemma player_rules:
  "m \<in> set colorMappings \<Longrightarrow> checkPlayerName m \<Longrightarrow> m = cellphoneMapping"
  using player_rules_all by (simp add: list_all_iff)

lemma classify_player:
  assumes "name \<noteq> []" "test (pattern cellphoneMapping) t"
  shows "classifyLine name t =
     (t, Some (if startsWith t name then js ''rgb(255, 255, 255)'' else color cellphoneMapping))"
  using assms by (simp add: classifyLine_def find_player_rule)

lemma classify_fullLine:
  assumes "\<not> (name \<noteq> [] \<and> test (pattern cellphoneMapping) t)" "test (pattern radioMapping) t"
  shows "classifyLine name t = (t, Some (color radioMapping))"
  using assms by (auto simp add: classifyLine_def find_player_rule find_fullLine_rule)


lemma test_iff: "test rx t \<longleftrightarrow> (\<exists>i\<le>length t. matchAt rx t i \<noteq> None)"
proof -
  have "set [0..<Suc (length t)] = {i. i \<le> length t}" by auto
  then show ?thesis by (simp add: test_def list_ex_iff)
qed

lemmas regexp_defs = matchAt_def str_def seqs_def dot_def isLineTerminator_def
  isWhiteSpace_def isDigit_def isWordChar_def isAsciiLetter_def toUpperAscii_def runLength_def
  wordAt_def js_def

lemma radio_matches: "test (pattern radioMapping) radioCellphoneLine"
proof -
  have "matchAt (pattern radioMapping) radioCellphoneLine 0 \<noteq> None"
    by (simp add: radioCellphoneLine_def mapping_defs regexp_defs)
  then show ?thesis unfolding test_iff by blast
qed

lemma cellphone_matches: "test (pattern cellphoneMapping) radioCellphoneLine"
proof -
  have "matchAt (pattern cellphoneMapping) radioCellphoneLine 18 \<noteq> None"
    by (simp add: radioCellphoneLine_def mapping_defs regexp_defs)
  moreover have "18 \<le> length radioCellphoneLine"
    by (simp add: radioCellphoneLine_def js_def)
  ultimately show ?thesis unfolding test_iff by blast
qed

lemma mappings_member:
  "radioMapping \<in> set colorMappings" "cellphoneMapping \<in> set colorMappings"
  "colorMappings ! 0 = radioMapping" "colorMappings ! 1 = cellphoneMapping"
  by (simp_all add: colorMappings_def)

lemma mapping_colors:
  "color radioMapping = js ''rgb(214, 207, 140)''"
  "color cellphoneMapping = js ''rgb(251, 247, 36)''"
  by (simp_all add: radioMapping_def cellphoneMapping_def plainMapping_def)

lemma js_nonempty [simp]: "js (c # cs) \<noteq> []"
  by (simp add: js_def)

lemma processLine_fullLine:
  assumes "m \<in> set colorMappings" "fullLine m" "\<not> checkPlayerName m"
    and "test (pattern m) (if strip then replaceFirst timestampRegExp [] line else line)"
    and "\<not> (name \<noteq> [] \<and>
            (\<exists>c\<in>set colorMappings. checkPlayerName c \<and>
               test (pattern c) (if strip then replaceFirst timestampRegExp [] line else line)))"
  shows "processLine strip name line index =
     \<lparr>id_p = index,
      text_p = (if strip then replaceFirst timestampRegExp [] line else line),
      color_p = Some (color m)\<rparr>"
proof -
  let ?t = "if strip then replaceFirst timestampRegExp [] line else line"
  from fullLine_rules [OF assms(1,2)] assms(3) have m: "m = radioMapping" by auto
  have "\<not> (name \<noteq> [] \<and> test (pattern cellphoneMapping) ?t)"
    using assms(5) mappings_member(2) by auto
  from classify_fullLine [OF this] assms(4) m
  have "classifyLine name ?t = (?t, Some (color radioMapping))" by simp
  then show ?thesis
    by (simp add: processLine_def Let_def m orString_def mapping_colors)
qed

lemma processLine_player:
  assumes "name \<noteq> []" "c \<in> set colorMappings" "checkPlayerName c"
    and "test (pattern c) (if strip then replaceFirst timestampRegExp [] line else line)"
  shows "processLine strip name line index =
     \<lparr>id_p = index,
      text_p = (if strip then replaceFirst timestampRegExp [] line else line),
      color_p = Some (if startsWith (if strip then replaceFirst timestampRegExp [] line else line) name
                      then js ''rgb(255, 255, 255)'' else color c)\<rparr>"
proof -
  let ?t = "if strip then replaceFirst timestampRegExp [] line else line"
  from player_rules [OF assms(2,3)] have c: "c = cellphoneMapping" .
  from classify_player [OF assms(1), of ?t] assms(4) c
  have "classifyLine name ?t =
     (?t, Some (if startsWith ?t name then js ''rgb(255, 255, 255)'' else color cellphoneMapping))"
    by simp
  then show ?thesis
    by (simp add: processLine_def Let_def c orString_def mapping_colors)
qed

lemma not_startsWith_Bob: "\<not> startsWith radioCellphoneLine (js ''Bob'')"
  by (simp add: startsWith_def radioCellphoneLine_def js_def)

lemma matchAt_unsafe:
  "matchAt unsafeCharRegExp s q =
     (if q < length s \<and> \<not> safeThemeChar (s ! q) then Some 1 else None)"
  by (simp add: matchAt_def unsafeCharRegExp_def)

lemma replaceAllFrom_unsafe:
  "q \<le> length s \<Longrightarrow> replaceAllFrom unsafeCharRegExp [] s q = filter safeThemeChar (drop q s)"
proof (induction "length s - q" arbitrary: q)
  case 0
  then have "q = length s" by simp
  then show ?case
    by (simp add: replaceAllFrom.simps [of _ _ s "length s"] replaceAllFrom.simps [of _ _ s "Suc (length s)"]
        matchAt_unsafe)
next
  case (Suc n)
  then have q: "q < length s" and n: "n = length s - Suc q" and le: "Suc q \<le> length s" by simp_all
  from Suc.hyps(1) [OF n le]
  have ih: "replaceAllFrom unsafeCharRegExp [] s (Suc q) = filter safeThemeChar (drop (Suc q) s)" .
  have d: "drop q s = s ! q # drop (Suc q) s" using q by (simp add: Cons_nth_drop_Suc)
  show ?case
    using q ih by (simp add: replaceAllFrom.simps [of _ _ s q] matchAt_unsafe d)
qed

lemma replaceAll_unsafe: "replaceAll unsafeCharRegExp [] s = filter safeThemeChar s"
  by (simp add: replaceAll_def replaceAllFrom_unsafe)

lemma matchAt_whiteSpaceRun:
  "matchAt whiteSpaceRunRegExp s q =
     (if q < length s \<and> isWhiteSpace (s ! q) then Some (runLength isWhiteSpace (drop q s)) else None)"
proof (cases "q < length s \<and> isWhiteSpace (s ! q)")
  case True
  then have d: "drop q s = s ! q # drop (Suc q) s" by (simp add: Cons_nth_drop_Suc)
  have "runLength isWhiteSpace (drop q s) = Suc (runLength isWhiteSpace (drop (Suc q) s))"
    using True by (simp add: runLength_def d)
  then show ?thesis
    using True by (simp add: matchAt_def whiteSpaceRunRegExp_def)
next
  case False
  then have "runLength isWhiteSpace (drop q s) = 0"
  proof (cases "q < length s")
    case True
    with False have "\<not> isWhiteSpace (s ! q)" by simp
    moreover have "drop q s = s ! q # drop (Suc q) s" using True by (simp add: Cons_nth_drop_Suc)
    ultimately show ?thesis by (simp add: runLength_def)
  next
    case False
    then show ?thesis by (simp add: runLength_def)
  qed
  with False show ?thesis by (simp add: matchAt_def whiteSpaceRunRegExp_def)
qed

lemma replaceAllFrom_whiteSpace:
  "q \<le> length s \<Longrightarrow>
   replaceAllFrom whiteSpaceRunRegExp (js ''-'') s q = collapseWhitespace (drop q s)"
proof (induction "length s - q" arbitrary: q rule: less_induct)
  case less
  show ?case
  proof (cases "q < length s")
    case False
    with less.prems have "q = length s" by simp
    then show ?thesis
      by (simp add: replaceAllFrom.simps [of _ _ s "length s"]
          replaceAllFrom.simps [of _ _ s "Suc (length s)"] matchAt_whiteSpaceRun)
  next
    case True
    then have d: "drop q s = s ! q # drop (Suc q) s" by (simp add: Cons_nth_drop_Suc)
    show ?thesis
    proof (cases "isWhiteSpace (s ! q)")
      case False
      have "replaceAllFrom whiteSpaceRunRegExp (js ''-'') s (Suc q) = collapseWhitespace (drop (Suc q) s)"
        using True by (intro less.hyps) simp_all
      then show ?thesis
        using True False by (simp add: replaceAllFrom.simps [of _ _ s q] matchAt_whiteSpaceRun d)
    next
      case ws: True
      let ?n = "runLength isWhiteSpace (drop q s)"
      have n: "?n = Suc (length (takeWhile isWhiteSpace (drop (Suc q) s)))"
        using ws by (simp add: runLength_def d)
      have le: "q + ?n \<le> length s"
      proof -
        have "length (takeWhile isWhiteSpace (drop q s)) \<le> length (drop q s)"
          by (rule length_takeWhile_le)
        then show ?thesis using True by (simp add: runLength_def)
      qed
      have "replaceAllFrom whiteSpaceRunRegExp (js ''-'') s (q + ?n) = collapseWhitespace (drop (q + ?n) s)"
        using le n True by (intro less.hyps) simp_all
      moreover have "drop (q + ?n) s = dropWhile isWhiteSpace (drop (Suc q) s)"
      proof -
        have "drop (q + ?n) s = drop (length (takeWhile isWhiteSpace (drop (Suc q) s))) (drop (Suc q) s)"
          by (simp add: n add.commute)
        then show ?thesis by (simp add: dropWhile_eq_drop)
      qed
      ultimately show ?thesis
        using True ws n
        by (simp add: replaceAllFrom.simps [of _ _ s q] matchAt_whiteSpaceRun d js_def)
    qed
  qed
qed

lemma replaceAll_whiteSpace:
  "replaceAll whiteSpaceRunRegExp (js ''-'') s = collapseWhitespace s"
  by (simp add: replaceAll_def replaceAllFrom_whiteSpace)

lemma safeThemeOf_eq:
  "safeThemeOf theme = collapseWhitespace (trim (filter safeThemeChar (trim theme)))"
  by (simp add: safeThemeOf_def Let_def replaceAll_unsafe replaceAll_whiteSpace)

lemma set_collapseWhitespace:
  "set (collapseWhitespace s) \<subseteq> insert 45 {c \<in> set s. \<not> isWhiteSpace c}"
proof (induction s rule: collapseWhitespace.induct)
  case 1
  show ?case by simp
next
  case (2 c cs)
  show ?case
  proof (cases "isWhiteSpace c")
    case True
    have "set (dropWhile isWhiteSpace cs) \<subseteq> set cs" by (auto dest: set_dropWhileD)
    with 2(1) [OF True] True show ?thesis by auto
  next
    case False
    with 2(2) [OF False] show ?thesis by auto
  qed
qed

lemma set_trim: "set (trim s) \<subseteq> set s"
  by (auto simp: trim_def dest!: set_dropWhileD)

lemma safeThemeOf_chars:
  assumes "c \<in> set (safeThemeOf theme)"
  shows "isAsciiLetter c \<or> isDigit c \<or> c = 95 \<or> c = 45"
proof -
  from assms set_collapseWhitespace
  have "c = 45 \<or> (c \<in> set (trim (filter safeThemeChar (trim theme))) \<and> \<not> isWhiteSpace c)"
    unfolding safeThemeOf_eq by blast
  then show ?thesis
  proof
    assume "c = 45" then show ?thesis by simp
  next
    assume h: "c \<in> set (trim (filter safeThemeChar (trim theme))) \<and> \<not> isWhiteSpace c"
    with set_trim have "c \<in> set (filter safeThemeChar (trim theme))" by blast
    then have "safeThemeChar c" by simp
    with h show ?thesis by (simp add: safeThemeChar_def)
  qed
qed

lemma pad_two_digits: "v < 100 \<Longrightarrow> pad v = [48 + v div 10, 48 + v mod 10]"
proof (cases "v < 10")
  case True
  then show ?thesis by (simp add: pad_def padStart2_def toStringNat.simps [of v])
next
  case False
  assume "v < 100"
  with False have "v div 10 < 10" by simp
  with False show ?thesis
    by (simp add: pad_def padStart2_def toStringNat.simps [of v] toStringNat.simps [of "v div 10"])
qed

lemmas theme_eval = trim_def isWhiteSpace_def safeThemeChar_def isAsciiLetter_def isDigit_def
  js_def

lemma safeThemeOf_example: "safeThemeOf (js ''My Screenshot!'') = js ''My-Screenshot''"
  by (simp add: safeThemeOf_eq theme_eval)

lemma filename_example:
  "buildScreenshotFilename
     \<lparr>getDate = 5, getMonth = 2, getFullYear = 2024, getHours = 14, getMinutes = 7\<rparr>
     (s\<lparr>screenshotTheme := js ''My Screenshot!''\<rparr>) =
   js ''05032024 - 1407 - My-Screenshot.png''"
proof -
  have y: "toStringInt 2024 = js ''2024''"
    by (simp add: toStringInt_def toStringNat.simps [of 2024] toStringNat.simps [of 202]
        toStringNat.simps [of 20] toStringNat.simps [of 2] js_def)
  have p: "pad 5 = js ''05''" "pad 3 = js ''03''" "pad 14 = js ''14''" "pad 7 = js ''07''"
    by (simp_all add: pad_two_digits js_def)
  have "pad (2 + 1) = js ''03''" using p(2) by simp
  then show ?thesis
    by (simp add: buildScreenshotFilename_def Let_def safeThemeOf_example y p) (simp add: js_def)
qed

lemma overlap_regions:
  "censoredRegions overlapState =
       [\<lparr>lineIndex = 0, startOffset = 3, endOffset = 8, type_r = BlackBar, layerId = 1\<rparr>,
        \<lparr>lineIndex = 0, startOffset = 0, endOffset = 5, type_r = Invisible, layerId = 1\<rparr>]"
  by (simp add: overlapState_def)

lemma replaceAllFrom_literal_absent:
  "q \<le> length s \<Longrightarrow> c \<notin> set s \<Longrightarrow>
   replaceAllFrom \<lparr>source = Seq (Lit c) Eps, ignoreCase = False\<rparr> r s q = drop q s"
proof (induction "length s - q" arbitrary: q)
  case 0
  then have "q = length s" by simp
  then show ?case
    by (simp add: replaceAllFrom.simps [of _ _ s "length s"]
        replaceAllFrom.simps [of _ _ s "Suc (length s)"] matchAt_def)
next
  case (Suc n)
  then have q: "q < length s" and n: "n = length s - Suc q" and le: "Suc q \<le> length s" by simp_all
  from Suc.hyps(1) [OF n le Suc.prems(2)]
  have ih: "replaceAllFrom \<lparr>source = Seq (Lit c) Eps, ignoreCase = False\<rparr> r s (Suc q) = drop (Suc q) s" .
  have d: "drop q s = s ! q # drop (Suc q) s" using q by (simp add: Cons_nth_drop_Suc)
  have "s ! q \<noteq> c" using q Suc.prems(2) by (metis nth_mem)
  then show ?case
    using q ih by (simp add: replaceAllFrom.simps [of _ _ s q] matchAt_def d)
qed

lemma escapeHtml_plain:
  assumes "38 \<notin> set s" "60 \<notin> set s" "62 \<notin> set s" "34 \<notin> set s" "39 \<notin> set s"
  shows "escapeHtml s = s"
  using assms
  by (simp add: escapeHtml_def replaceAll_def literalRegExp_def str_def
      replaceAllFrom_literal_absent)

section \<open>The censor cycle\<close>

text \<open>
  Claim C1. When the selection has \<open>lineIndex = -1\<close> or \<open>layerId = -1\<close>,
  \<open>cycleCensorType\<close> changes nothing. Every call leaves the regions with another key
  (layer, line, start, end) as they are, in their order. When no region has the
  selection's key, four successive calls store the region as \<open>Invisible\<close>, turn that one
  region into \<open>BlackBar\<close>, then into \<open>Blur\<close>, and then remove it: the key is never
  duplicated, and after the fourth call the regions are the ones before the first.
\<close>

theorem cycleCensorType_four_state_cycle:
  "(lineIndex_s (selectedText s) = - 1 \<or> layerId_s (selectedText s) = - 1
      \<longrightarrow> cycleCensorType s = s) \<and>
   filter (\<lambda>r. \<not> sameRegion (selectedText s) r) (censoredRegions (cycleCensorType s)) =
     filter (\<lambda>r. \<not> sameRegion (selectedText s) r) (censoredRegions s) \<and>
   (lineIndex_s (selectedText s) \<noteq> - 1 \<and> layerId_s (selectedText s) \<noteq> - 1 \<and>
    (\<forall>r\<in>set (censoredRegions s). \<not> sameRegion (selectedText s) r) \<longrightarrow>
      censoredRegions (cycleCensorType s) =
        censoredRegions s @ [regionOf (selectedText s) Invisible] \<and>
      censoredRegions ((cycleCensorType ^^ 2) s) =
        censoredRegions s @ [regionOf (selectedText s) BlackBar] \<and>
      censoredRegions ((cycleCensorType ^^ 3) s) =
        censoredRegions s @ [regionOf (selectedText s) Blur] \<and>
      censoredRegions ((cycleCensorType ^^ 4) s) = censoredRegions s)"
proof (intro conjI impI)
  assume "lineIndex_s (selectedText s) = - 1 \<or> layerId_s (selectedText s) = - 1"
  then show "cycleCensorType s = s"
    by (auto simp: cycleCensorType_def Let_def)
next
  show "filter (\<lambda>r. \<not> sameRegion (selectedText s) r) (censoredRegions (cycleCensorType s)) =
     filter (\<lambda>r. \<not> sameRegion (selectedText s) r) (censoredRegions s)"
    by (rule cycle_others)
next
  assume h: "lineIndex_s (selectedText s) \<noteq> - 1 \<and> layerId_s (selectedText s) \<noteq> - 1 \<and>
    (\<forall>r\<in>set (censoredRegions s). \<not> sameRegion (selectedText s) r)"
  let ?sel = "selectedText s" and ?rs = "censoredRegions s"
  let ?s1 = "cycleCensorType s"
  let ?s2 = "cycleCensorType ?s1"
  let ?s3 = "cycleCensorType ?s2"
  have s1: "censoredRegions ?s1 = ?rs @ [regionOf ?sel Invisible]"
    using h by (simp add: cycle_absent)
  have s2: "censoredRegions ?s2 = ?rs @ [regionOf ?sel BlackBar]"
    using cycle_last(1) [of ?s1 ?rs Invisible] h s1 by simp
  have s3: "censoredRegions ?s3 = ?rs @ [regionOf ?sel Blur]"
    using cycle_last(1) [of ?s2 ?rs BlackBar] h s2 by simp
  have s4: "censoredRegions (cycleCensorType ?s3) = ?rs"
    using cycle_last(1) [of ?s3 ?rs Blur] h s3 by simp
  show "censoredRegions ?s1 = ?rs @ [regionOf ?sel Invisible]" by (rule s1)
  show "censoredRegions ((cycleCensorType ^^ 2) s) = ?rs @ [regionOf ?sel BlackBar]"
    using s2 by (simp add: numeral_2_eq_2)
  show "censoredRegions ((cycleCensorType ^^ 3) s) = ?rs @ [regionOf ?sel Blur]"
    using s3 by (simp add: numeral_3_eq_3)
  show "censoredRegions ((cycleCensorType ^^ 4) s) = ?rs"
    using s4 by (simp add: eval_nat_numeral)
qed

theorem cycleCensorType_four_state_cycle_witness:
  "cycleCensorType initialState = initialState \<and>
   censoredRegions
     ((cycleCensorType ^^ 4)
        (initialState\<lparr>selectedText :=
           \<lparr>layerId_s = 1, lineIndex_s = 0, startOffset_s = 2, endOffset_s = 5,
            text_s = js ''abc''\<rparr>\<rparr>)) = []"
  using cycleCensorType_four_state_cycle [of initialState]
    cycleCensorType_four_state_cycle
      [of "initialState\<lparr>selectedText :=
             \<lparr>layerId_s = 1, lineIndex_s = 0, startOffset_s = 2, endOffset_s = 5,
              text_s = js ''abc''\<rparr>\<rparr>"]
  by (simp add: initialState_def emptyState_def createChatLayer_def noOptions_def)

section \<open>Parsing un-hides the layer\<close>

text \<open>
  Claim C10. Every call of \<open>parseChatlog\<close> on a layer leaves that layer with
  \<open>visible = true\<close>, whatever the flag was before and whatever the text is. The callers
  inherit this: selecting a layer that has text and no parsed lines, importing a chat
  file, and restoring a saved layer (also one saved as hidden) leave the layer visible.
\<close>

theorem parseChatlog_sets_visible:
  "(validLayer layer s \<longrightarrow>
      parseTarget layer s < length (chatLayers (parseChatlog layer s)) \<and>
      visible (chatLayers (parseChatlog layer s) ! parseTarget layer s)) \<and>
   (findIndex (\<lambda>l. id_l l = i) (chatLayers s) = Some k \<and> text_l (chatLayers s ! k) \<noteq> [] \<and>
    length (parsedLines (chatLayers s ! k)) = 0 \<longrightarrow>
      visible (chatLayers (selectChatLayer i s) ! k)) \<and>
   visible (chatLayers (importChatText content s) ! parseTarget None (set_chatlogText content s)) \<and>
   visible (chatLayers (restoreLayer saved s) ! length (chatLayers s))"
proof (intro conjI impI)
  assume "validLayer layer s"
  then show "parseTarget layer s < length (chatLayers (parseChatlog layer s))"
    and "visible (chatLayers (parseChatlog layer s) ! parseTarget layer s)"
    by (rule parse_visible)+
next
  assume "findIndex (\<lambda>l. id_l l = i) (chatLayers s) = Some k \<and> text_l (chatLayers s ! k) \<noteq> [] \<and>
    length (parsedLines (chatLayers s ! k)) = 0"
  then show "visible (chatLayers (selectChatLayer i s) ! k)"
    by (simp add: select_parses_visible)
next
  have "validLayer None (set_chatlogText content s)" by (simp add: validLayer_def)
  then show "visible (chatLayers (importChatText content s) ! parseTarget None (set_chatlogText content s))"
    unfolding importChatText_def by (rule parse_visible(2))
next
  show "visible (chatLayers (restoreLayer saved s) ! length (chatLayers s))"
    by (rule restore_visible)
qed

theorem parseChatlog_sets_visible_witness:
  "validLayer (Some 0) hiddenState \<and>
   \<not> visible (chatLayers hiddenState ! 0) \<and>
   visible (chatLayers (parseChatlog (Some 0) hiddenState) ! 0) \<and>
   findIndex (\<lambda>l. id_l l = 1) (chatLayers hiddenState) = Some 0 \<and>
   visible (chatLayers (selectChatLayer 1 hiddenState) ! 0)"
  using parseChatlog_sets_visible [of "Some 0" hiddenState 1 0]
  by (simp add: hiddenState_def initialState_def emptyState_def createChatLayer_def
      noOptions_def validLayer_def parseTarget_def orString_def js_def)

section \<open>The lines that \<open>parseChatlog\<close> stores\<close>

text \<open>
  Claim C2. \<open>parseChatlog\<close> splits the source text at the newlines (joining the pieces
  with newlines gives the text back, and no piece contains a newline), drops the pieces
  that are empty after trimming, and stores one parsed line per surviving piece, in
  their order: the line at position \<open>i\<close> is the result of the callback on the \<open>i\<close>-th
  surviving piece and has \<open>id = i\<close>, so the ids are \<open>0, 1, 2, ...\<close>. The empty text gives
  the empty array. The text of a parsed line is the piece as the callback leaves it
  (the timestamp stripped, marker segments wrapped).
\<close>

theorem parseChatlog_surviving_lines:
  "joinWith [10] (splitOn 10 sourceText) = sourceText \<and>
   (\<forall>piece\<in>set (splitOn 10 sourceText). 10 \<notin> set piece) \<and>
   survivingLines sourceText = filter (\<lambda>line. trim line \<noteq> []) (splitOn 10 sourceText) \<and>
   length (parsedLinesOf strip name sourceText) = length (survivingLines sourceText) \<and>
   map id_p (parsedLinesOf strip name sourceText) = [0..<length (survivingLines sourceText)] \<and>
   (\<forall>i<length (survivingLines sourceText).
      parsedLinesOf strip name sourceText ! i =
        processLine strip name (survivingLines sourceText ! i) i) \<and>
   parsedLinesOf strip name [] = [] \<and>
   (validLayer layer s \<longrightarrow>
      parsedLines (chatLayers (parseChatlog layer s) ! parseTarget layer s) =
        parsedLinesOf (stripTimestamps s) (characterName s)
          (text_l (chatLayers (parseState layer s) ! parseTarget layer s)))"
proof (intro conjI allI impI ballI)
  show "joinWith [10] (splitOn 10 sourceText) = sourceText"
    by (simp add: splitOn_def joinWith_splitAcc)
next
  fix piece assume "piece \<in> set (splitOn 10 sourceText)"
  then show "10 \<notin> set piece"
    using splitAcc_pieces [of 10 "[]" piece sourceText] by (simp add: splitOn_def)
next
  show "survivingLines sourceText = filter (\<lambda>line. trim line \<noteq> []) (splitOn 10 sourceText)"
    by (simp add: survivingLines_def)
next
  show "length (parsedLinesOf strip name sourceText) = length (survivingLines sourceText)"
    by (rule length_parsedLinesOf)
next
  show "map id_p (parsedLinesOf strip name sourceText) = [0..<length (survivingLines sourceText)]"
    using ids_mapIndexFrom [of strip name 0 "survivingLines sourceText"]
    by (simp add: parsedLinesOf_def mapIndex_def)
next
  fix i assume "i < length (survivingLines sourceText)"
  then show "parsedLinesOf strip name sourceText ! i =
        processLine strip name (survivingLines sourceText ! i) i"
    by (cases "sourceText = []") (simp_all add: parsedLinesOf_def mapIndex_def nth_mapIndexFrom)
next
  show "parsedLinesOf strip name [] = []"
    by (simp add: parsedLinesOf_def)
next
  assume "validLayer layer s"
  then show "parsedLines (chatLayers (parseChatlog layer s) ! parseTarget layer s) =
        parsedLinesOf (stripTimestamps s) (characterName s)
          (text_l (chatLayers (parseState layer s) ! parseTarget layer s))"
    by (simp add: parse_target_layer(1) parsedFor_def)
qed

theorem parseChatlog_surviving_lines_witness:
  "validLayer None exampleChatState \<and>
   survivingLines exampleText = [js ''John says: Hi'', js ''*waves*''] \<and>
   map id_p (parsedLines (chatLayers (parseChatlog None exampleChatState) ! 0)) = [0, 1]"
proof -
  from parseChatlog_surviving_lines [of exampleText False "[]" None exampleChatState]
  have ids: "map id_p (parsedLinesOf False [] exampleText) =
        [0..<length (survivingLines exampleText)]"
    and eq: "validLayer None exampleChatState \<longrightarrow>
      parsedLines (chatLayers (parseChatlog None exampleChatState) ! parseTarget None exampleChatState) =
        parsedLinesOf (stripTimestamps exampleChatState) (characterName exampleChatState)
          (text_l (chatLayers (parseState None exampleChatState) ! parseTarget None exampleChatState))"
    by blast+
  have "[0..<length (survivingLines exampleText)] = [0, 1]"
    by (simp add: survivingLines_example upt_rec)
  with ids eq show ?thesis
    by (simp add: exampleChatState_layer survivingLines_example)
qed

section \<open>Parsing again\<close>

text \<open>
  Claim C3. Parsing a second time changes nothing in the layers: the parsed lines (id,
  text and color of every line) are those of the first parse. The parsed lines are
  determined by the source text, the flag \<open>stripTimestamps\<close> and the character name alone:
  two states that agree on these store the same lines.
\<close>

theorem parseChatlog_idempotent:
  "(validLayer layer s \<longrightarrow>
      chatLayers (parseChatlog layer (parseChatlog layer s)) = chatLayers (parseChatlog layer s)) \<and>
   (validLayer layer s \<and> validLayer layer' s' \<and>
    text_l (chatLayers (parseState layer s) ! parseTarget layer s) =
      text_l (chatLayers (parseState layer' s') ! parseTarget layer' s') \<and>
    stripTimestamps s = stripTimestamps s' \<and> characterName s = characterName s' \<longrightarrow>
      parsedLines (chatLayers (parseChatlog layer s) ! parseTarget layer s) =
      parsedLines (chatLayers (parseChatlog layer' s') ! parseTarget layer' s'))"
proof (intro conjI impI)
  assume "validLayer layer s"
  then show "chatLayers (parseChatlog layer (parseChatlog layer s)) = chatLayers (parseChatlog layer s)"
    by (rule parse_twice_layers)
next
  assume h: "validLayer layer s \<and> validLayer layer' s' \<and>
    text_l (chatLayers (parseState layer s) ! parseTarget layer s) =
      text_l (chatLayers (parseState layer' s') ! parseTarget layer' s') \<and>
    stripTimestamps s = stripTimestamps s' \<and> characterName s = characterName s'"
  then show "parsedLines (chatLayers (parseChatlog layer s) ! parseTarget layer s) =
      parsedLines (chatLayers (parseChatlog layer' s') ! parseTarget layer' s')"
    by (simp add: parse_target_layer(1) parsedFor_def)
qed

theorem parseChatlog_idempotent_witness:
  "validLayer None exampleChatState \<and> validLayer (Some 0) exampleHiddenState \<and>
   chatLayers (parseChatlog None (parseChatlog None exampleChatState)) =
     chatLayers (parseChatlog None exampleChatState) \<and>
   parsedLines (chatLayers (parseChatlog None exampleChatState) ! 0) =
     parsedLines (chatLayers (parseChatlog (Some 0) exampleHiddenState) ! 0)"
  using parseChatlog_idempotent [of None exampleChatState "Some 0" exampleHiddenState]
  by (simp add: exampleChatState_layer exampleHiddenState_layer)

section \<open>The layer store is never empty\<close>

text \<open>
  Claim C7. \<open>removeChatLayer\<close> changes nothing when at most one layer is left. Each
  operation of the store (create, add, select, remove, move, reset) leaves at least one
  layer when there was one; create, add, select and reset leave one in any case. So
  every state reached from the initial state by these operations has a layer.
\<close>

theorem layer_store_never_empty:
  "(length (chatLayers s) \<le> 1 \<longrightarrow> removeChatLayer i s = s) \<and>
   (chatLayers s \<noteq> [] \<longrightarrow> chatLayers (applyOp op s) \<noteq> []) \<and>
   (\<forall>options j. op = Create options \<or> op = Add \<or> op = Select j \<or> op = Reset \<longrightarrow>
      chatLayers (applyOp op s) \<noteq> []) \<and>
   chatLayers (runOps ops initialState) \<noteq> []"
proof (intro conjI impI allI)
  assume "length (chatLayers s) \<le> 1"
  then show "removeChatLayer i s = s" by (simp add: removeChatLayer_def)
next
  assume "chatLayers s \<noteq> []"
  then show "chatLayers (applyOp op s) \<noteq> []" by (rule applyOp_nonempty)
next
  fix options j
  assume "op = Create options \<or> op = Add \<or> op = Select j \<or> op = Reset"
  then show "chatLayers (applyOp op s) \<noteq> []"
    using create_layers [of options s] reset_layers [of s]
    by (auto simp: addChatLayer_def case_prod_beta select_nonempty)
next
  have "chatLayers initialState \<noteq> []" using initialState_layers by auto
  then show "chatLayers (runOps ops initialState) \<noteq> []" by (rule runOps_nonempty)
qed

theorem layer_store_never_empty_witness:
  "length (chatLayers initialState) \<le> 1 \<and>
   removeChatLayer 1 initialState = initialState \<and>
   chatLayers initialState \<noteq> [] \<and>
   chatLayers (applyOp (Remove 1) initialState) \<noteq> [] \<and>
   chatLayers (applyOp Reset initialState) \<noteq> []"
proof -
  have n: "chatLayers initialState \<noteq> []" using initialState_layers by auto
  show ?thesis
    using layer_store_never_empty [of initialState 1 "Remove 1" "[]"]
      layer_store_never_empty [of initialState 1 Reset "[]"] n
    by (simp add: initialState_layers)
qed

section \<open>What removing a layer changes\<close>

text \<open>
  Claim C8, amended. When \<open>removeChatLayer(id)\<close> removes a layer (there are at least two
  layers and one has the id), the censor regions afterwards are exactly the regions
  whose \<open>layerId\<close> differs from \<open>id\<close>, in their order. The layers afterwards are the
  other layers in their order, with all their fields, except for the layer that becomes
  selected (the first layer with the id of the layer before the removed one, or of the
  first layer): when that layer has text and no parsed lines, it is parsed, which sets
  its parsed lines and makes it visible.
\<close>

theorem removeChatLayer_frame:
  "1 < length (chatLayers s) \<and> findIndex (\<lambda>l. id_l l = i) (chatLayers s) = Some index \<longrightarrow>
     censoredRegions (removeChatLayer i s) =
       filter (\<lambda>region. layerId region \<noteq> i) (censoredRegions s) \<and>
     (\<exists>k\<le>index - 1.
        findIndex (\<lambda>l. id_l l = id_l (splice1 index (chatLayers s) ! (index - 1)))
          (splice1 index (chatLayers s)) = Some k \<and>
        chatLayers (removeChatLayer i s) =
          (let remaining = splice1 index (chatLayers s)
           in if text_l (remaining ! k) \<noteq> [] \<and> length (parsedLines (remaining ! k)) = 0
              then remaining[k := (remaining ! k)
                     \<lparr>visible := True,
                      parsedLines := parsedLinesOf (stripTimestamps s) (characterName s)
                                       (text_l (remaining ! k))\<rparr>]
              else remaining))"
proof (intro impI)
  assume h: "1 < length (chatLayers s) \<and> findIndex (\<lambda>l. id_l l = i) (chatLayers s) = Some index"
  then have len: "1 < length (chatLayers s)"
    and fi: "findIndex (\<lambda>l. id_l l = i) (chatLayers s) = Some index" by simp_all
  let ?rem = "splice1 index (chatLayers s)"
  have idx: "index < length (chatLayers s)" by (rule findIndex_less [OF fi])
  then have "length ?rem = length (chatLayers s) - 1" by (rule length_splice1)
  with len idx have j: "index - 1 < length ?rem" by arith
  from findIndex_member [of "index - 1" ?rem "\<lambda>l. id_l l = id_l (?rem ! (index - 1))", OF j]
  obtain k where k: "findIndex (\<lambda>l. id_l l = id_l (?rem ! (index - 1))) ?rem = Some k"
    "k \<le> index - 1" by auto
  have regions: "censoredRegions (removeChatLayer i s) =
       filter (\<lambda>region. layerId region \<noteq> i) (censoredRegions s)"
    by (simp add: remove_found [OF len fi])
  from remove_layers [OF len fi k(1)] k regions
  show "censoredRegions (removeChatLayer i s) =
       filter (\<lambda>region. layerId region \<noteq> i) (censoredRegions s) \<and>
     (\<exists>k\<le>index - 1.
        findIndex (\<lambda>l. id_l l = id_l (?rem ! (index - 1))) ?rem = Some k \<and>
        chatLayers (removeChatLayer i s) =
          (let remaining = ?rem
           in if text_l (remaining ! k) \<noteq> [] \<and> length (parsedLines (remaining ! k)) = 0
              then remaining[k := (remaining ! k)
                     \<lparr>visible := True,
                      parsedLines := parsedLinesOf (stripTimestamps s) (characterName s)
                                       (text_l (remaining ! k))\<rparr>]
              else remaining))"
    by blast
qed

theorem removeChatLayer_frame_witness:
  "1 < length (chatLayers twoLayerState) \<and>
   findIndex (\<lambda>l. id_l l = 2) (chatLayers twoLayerState) = Some 1 \<and>
   censoredRegions (removeChatLayer 2 twoLayerState) =
     filter (\<lambda>region. layerId region \<noteq> 2) (censoredRegions twoLayerState) \<and>
   length (chatLayers (removeChatLayer 2 twoLayerState)) = 1"
proof -
  have len: "1 < length (chatLayers twoLayerState)" by (simp add: twoLayerState_layers)
  have fi: "findIndex (\<lambda>l. id_l l = 2) (chatLayers twoLayerState) = Some 1"
    by (simp add: twoLayerState_layers)
  from removeChatLayer_frame [of twoLayerState 2 1] len fi
  obtain k where "censoredRegions (removeChatLayer 2 twoLayerState) =
       filter (\<lambda>region. layerId region \<noteq> 2) (censoredRegions twoLayerState)"
    and "chatLayers (removeChatLayer 2 twoLayerState) =
          (let remaining = splice1 1 (chatLayers twoLayerState)
           in if text_l (remaining ! k) \<noteq> [] \<and> length (parsedLines (remaining ! k)) = 0
              then remaining[k := (remaining ! k)
                     \<lparr>visible := True,
                      parsedLines := parsedLinesOf (stripTimestamps twoLayerState)
                                       (characterName twoLayerState) (text_l (remaining ! k))\<rparr>]
              else remaining)"
    by auto
  moreover have "length (chatLayers twoLayerState) = 2" by (simp add: twoLayerState_layers)
  ultimately show ?thesis
    using len fi by (simp add: Let_def length_splice1 split: if_splits)
qed

text \<open>
  The claim as stated fails: in \<open>twoLayerState\<close> the first layer is hidden and has the
  unparsed text \<open>hi\<close>; removing the second layer leaves the first one visible.
\<close>

theorem removeChatLayer_frame_counterexample:
  "map id_l (chatLayers twoLayerState) = [1, 2] \<and>
   \<not> visible (chatLayers twoLayerState ! 0) \<and>
   map id_l (chatLayers (removeChatLayer 2 twoLayerState)) = [1] \<and>
   visible (chatLayers (removeChatLayer 2 twoLayerState) ! 0)"
proof -
  have len: "1 < length (chatLayers twoLayerState)" by (simp add: twoLayerState_layers)
  have fi: "findIndex (\<lambda>l. id_l l = 2) (chatLayers twoLayerState) = Some 1"
    by (simp add: twoLayerState_layers)
  have k: "findIndex (\<lambda>l. id_l l = id_l (splice1 1 (chatLayers twoLayerState) ! (1 - 1)))
           (splice1 1 (chatLayers twoLayerState)) = Some 0"
    by (simp add: twoLayerState_layers splice1_def)
  show ?thesis
    using remove_layers [OF len fi k]
    by (simp add: twoLayerState_layers splice1_def js_def)
qed

section \<open>Full-line rules\<close>

text \<open>
  Claim C4, amended. Let the processed text be the line, with its timestamp stripped when
  the option is on. When a rule that is flagged \<open>fullLine\<close> and not \<open>checkPlayerName\<close>
  matches the processed text, the parsed line has that rule's color and the processed
  text as its text, unless the player-aware tier fires, that is, unless a character name
  is set and a rule flagged \<open>checkPlayerName\<close> matches. When the player-aware tier fires,
  the color is white if the processed text starts with the character name and the
  player-aware rule's color otherwise, whatever other rules match.
\<close>

theorem fullLine_rule_color:
  "(m \<in> set colorMappings \<and> fullLine m \<and> \<not> checkPlayerName m \<and>
    test (pattern m) (if strip then replaceFirst timestampRegExp [] line else line) \<and>
    \<not> (name \<noteq> [] \<and>
       (\<exists>c\<in>set colorMappings. checkPlayerName c \<and>
          test (pattern c) (if strip then replaceFirst timestampRegExp [] line else line))) \<longrightarrow>
      text_p (processLine strip name line index) =
        (if strip then replaceFirst timestampRegExp [] line else line) \<and>
      color_p (processLine strip name line index) = Some (color m)) \<and>
   (name \<noteq> [] \<and> c \<in> set colorMappings \<and> checkPlayerName c \<and>
    test (pattern c) (if strip then replaceFirst timestampRegExp [] line else line) \<longrightarrow>
      text_p (processLine strip name line index) =
        (if strip then replaceFirst timestampRegExp [] line else line) \<and>
      color_p (processLine strip name line index) =
        Some (if startsWith (if strip then replaceFirst timestampRegExp [] line else line) name
              then js ''rgb(255, 255, 255)'' else color c))"
proof (intro conjI impI)
  assume h: "m \<in> set colorMappings \<and> fullLine m \<and> \<not> checkPlayerName m \<and>
    test (pattern m) (if strip then replaceFirst timestampRegExp [] line else line) \<and>
    \<not> (name \<noteq> [] \<and>
       (\<exists>c\<in>set colorMappings. checkPlayerName c \<and>
          test (pattern c) (if strip then replaceFirst timestampRegExp [] line else line)))"
  then have p: "processLine strip name line index =
     \<lparr>id_p = index,
      text_p = (if strip then replaceFirst timestampRegExp [] line else line),
      color_p = Some (color m)\<rparr>"
    by (intro processLine_fullLine) blast+
  show "text_p (processLine strip name line index) =
        (if strip then replaceFirst timestampRegExp [] line else line)"
    by (simp only: p ParsedLine.simps)
  show "color_p (processLine strip name line index) = Some (color m)"
    by (simp only: p ParsedLine.simps)
next
  assume h: "name \<noteq> [] \<and> c \<in> set colorMappings \<and> checkPlayerName c \<and>
    test (pattern c) (if strip then replaceFirst timestampRegExp [] line else line)"
  then have p: "processLine strip name line index =
     \<lparr>id_p = index,
      text_p = (if strip then replaceFirst timestampRegExp [] line else line),
      color_p = Some (if startsWith (if strip then replaceFirst timestampRegExp [] line else line) name
                      then js ''rgb(255, 255, 255)'' else color c)\<rparr>"
    by (intro processLine_player) blast+
  show "text_p (processLine strip name line index) =
        (if strip then replaceFirst timestampRegExp [] line else line)"
    by (simp only: p ParsedLine.simps)
  show "color_p (processLine strip name line index) =
        Some (if startsWith (if strip then replaceFirst timestampRegExp [] line else line) name
              then js ''rgb(255, 255, 255)'' else color c)"
    by (simp only: p ParsedLine.simps)
qed

theorem fullLine_rule_color_witness:
  "radioMapping \<in> set colorMappings \<and> fullLine radioMapping \<and> \<not> checkPlayerName radioMapping \<and>
   test (pattern radioMapping) radioCellphoneLine \<and>
   color_p (processLine False [] radioCellphoneLine 0) = Some (js ''rgb(214, 207, 140)'') \<and>
   cellphoneMapping \<in> set colorMappings \<and> checkPlayerName cellphoneMapping \<and>
   test (pattern cellphoneMapping) radioCellphoneLine \<and>
   color_p (processLine False (js ''Bob'') radioCellphoneLine 0) = Some (js ''rgb(251, 247, 36)'')"
  using fullLine_rule_color [where m = radioMapping and strip = False
      and line = radioCellphoneLine and name = "[]" and index = 0 and c = cellphoneMapping]
    fullLine_rule_color [where m = radioMapping and strip = False
      and line = radioCellphoneLine and name = "js ''Bob''" and index = 0 and c = cellphoneMapping]
  by (simp add: mappings_member radio_matches cellphone_matches mapping_colors not_startsWith_Bob)

text \<open>
  The claim as stated fails: the radio rule, flagged \<open>fullLine\<close> and first in the table,
  matches \<open>radioCellphoneLine\<close>, and with the character name \<open>Bob\<close> the line gets the
  color of the cellphone rule, which is second in the table.
\<close>

theorem fullLine_rule_color_counterexample:
  "colorMappings ! 0 = radioMapping \<and> colorMappings ! 1 = cellphoneMapping \<and>
   fullLine radioMapping \<and> test (pattern radioMapping) radioCellphoneLine \<and>
   color_p (processLine False (js ''Bob'') radioCellphoneLine 0) = Some (color cellphoneMapping) \<and>
   color cellphoneMapping \<noteq> color radioMapping"
proof -
  have "processLine False (js ''Bob'') radioCellphoneLine 0 =
     \<lparr>id_p = 0, text_p = radioCellphoneLine, color_p = Some (color cellphoneMapping)\<rparr>"
    using processLine_player [of "js ''Bob''" cellphoneMapping False radioCellphoneLine 0]
    by (simp add: mappings_member cellphone_matches not_startsWith_Bob)
  moreover have "color cellphoneMapping \<noteq> color radioMapping"
    by (simp add: mapping_colors js_def)
  ultimately show ?thesis
    using mappings_member(3,4) radio_matches by simp
qed

section \<open>The name of the screenshot\<close>

text \<open>
  Claim C9, amended. \<open>buildScreenshotFilename\<close> returns the day, the month and the year,
  \<open>" - "\<close>, the hours and the minutes, \<open>" - "\<close>, the theme and \<open>".png"\<close>; day, month,
  hours and minutes are written with two digits. The theme is the configured theme,
  trimmed, with the characters other than ASCII letters, digits, underscore, hyphen
  and whitespace (every character of \<open>\s\<close>, not the space alone) removed, trimmed
  again, and with each remaining run of whitespace replaced by one hyphen; it is
  \<open>screenshot\<close> when nothing is left. The theme so obtained consists of ASCII letters,
  digits, underscores and hyphens only. The theme \<open>My Screenshot!\<close> on 2024-03-05 at
  14:07 gives \<open>05032024 - 1407 - My-Screenshot.png\<close>.
\<close>

theorem buildScreenshotFilename_format:
  "buildScreenshotFilename now s =
     pad (getDate now) @ pad (getMonth now + 1) @ toStringInt (getFullYear now) @ js '' - '' @
     pad (getHours now) @ pad (getMinutes now) @ js '' - '' @
     (if safeThemeOf (screenshotTheme s) = [] then js ''screenshot''
      else safeThemeOf (screenshotTheme s)) @ js ''.png'' \<and>
   safeThemeOf theme = collapseWhitespace (trim (filter safeThemeChar (trim theme))) \<and>
   (\<forall>c\<in>set (safeThemeOf theme). isAsciiLetter c \<or> isDigit c \<or> c = 95 \<or> c = 45) \<and>
   (v < 100 \<longrightarrow> pad v = [48 + v div 10, 48 + v mod 10]) \<and>
   buildScreenshotFilename
     \<lparr>getDate = 5, getMonth = 2, getFullYear = 2024, getHours = 14, getMinutes = 7\<rparr>
     (s\<lparr>screenshotTheme := js ''My Screenshot!''\<rparr>) =
   js ''05032024 - 1407 - My-Screenshot.png''"
proof (intro conjI ballI impI)
  show "buildScreenshotFilename now s =
     pad (getDate now) @ pad (getMonth now + 1) @ toStringInt (getFullYear now) @ js '' - '' @
     pad (getHours now) @ pad (getMinutes now) @ js '' - '' @
     (if safeThemeOf (screenshotTheme s) = [] then js ''screenshot''
      else safeThemeOf (screenshotTheme s)) @ js ''.png''"
    by (simp add: buildScreenshotFilename_def Let_def)
next
  show "safeThemeOf theme = collapseWhitespace (trim (filter safeThemeChar (trim theme)))"
    by (rule safeThemeOf_eq)
next
  fix c assume "c \<in> set (safeThemeOf theme)"
  then show "isAsciiLetter c \<or> isDigit c \<or> c = 95 \<or> c = 45" by (rule safeThemeOf_chars)
next
  assume "v < 100"
  then show "pad v = [48 + v div 10, 48 + v mod 10]" by (rule pad_two_digits)
next
  show "buildScreenshotFilename
     \<lparr>getDate = 5, getMonth = 2, getFullYear = 2024, getHours = 14, getMinutes = 7\<rparr>
     (s\<lparr>screenshotTheme := js ''My Screenshot!''\<rparr>) =
   js ''05032024 - 1407 - My-Screenshot.png''"
    by (rule filename_example)
qed

theorem buildScreenshotFilename_format_witness:
  "(5::nat) < 100 \<and> pad 5 = js ''05'' \<and>
   safeThemeOf tabTheme = js ''a-b'' \<and>
   98 \<in> set (safeThemeOf tabTheme) \<and> isAsciiLetter 98"
proof -
  have e: "collapseWhitespace (trim (filter safeThemeChar (trim tabTheme))) = js ''a-b''"
    by (simp add: tabTheme_def theme_eval)
  show ?thesis
    using buildScreenshotFilename_format
      [of "\<lparr>getDate = 5, getMonth = 2, getFullYear = 2024, getHours = 14, getMinutes = 7\<rparr>"
        initialState tabTheme 5]
    by (simp add: e isAsciiLetter_def) (simp add: js_def)
qed

text \<open>
  The claim as stated fails on \<open>tabTheme\<close>: removing what is outside \<open>[A-Za-z0-9 _-]\<close>
  and collapsing the whitespace runs gives \<open>-ab\<close>, and the code gives \<open>a-b\<close>: it keeps
  the tab as whitespace and trims the leading space.
\<close>

theorem buildScreenshotFilename_format_counterexample:
  "safeThemeOf tabTheme = js ''a-b'' \<and> specTheme tabTheme = js ''-ab''"
proof -
  have "safeThemeOf tabTheme = js ''a-b''"
    by (simp add: safeThemeOf_eq tabTheme_def theme_eval)
  moreover have "specTheme tabTheme = js ''-ab''"
    by (simp add: specTheme_def specClassChar_def tabTheme_def theme_eval)
  ultimately show ?thesis by simp
qed

section \<open>Overlapping censor regions\<close>

text \<open>
  Claim C5 does not hold of the code; this is what the code does on the text
  \<open>abcdefghij\<close> in \<open>overlapState\<close>. The overlay (\<open>applyCensoring\<close>) sorts the regions by
  their start and then applies both of them: the code units at the offsets 3 and 4
  appear twice, once in each span. The export (\<open>drawTextSegment\<close>) does not sort: it
  takes the first region in the order of the array, draws \<open>abc\<close> uncensored although
  the other region starts at offset 0, paints the bar over \<open>defgh\<close>, and never applies
  the region of the offsets 0 to 5.
\<close>

theorem overlapping_regions_rendered:
  "applyCensoring (js ''abcdefghij'') 0 1 overlapState =
     js ''<span class=\"censored-invisible\">abcde</span><span class=\"censored-blackbar\">defgh</span>ij'' \<and>
   drawTextSegment measureText overlapState (js ''abcdefghij'') 4 0 (js ''white'') 0 0 1 =
     Some [DrawTextWithOutline (js ''abc'') 4 0 (js ''white'') None,
           FillRect (4 + measureText (js ''abc'') - 2) 0 (measureText (js ''defgh'') + 4) 16,
           DrawTextWithOutline (js ''ij'') (4 + measureText (js ''abc'') + measureText (js ''defgh''))
             0 (js ''white'') None]"
proof
  have e1: "escapeHtml (js ''abcde'') = js ''abcde''"
    by (rule escapeHtml_plain) (simp_all add: js_def)
  have e2: "escapeHtml (js ''defgh'') = js ''defgh''"
    by (rule escapeHtml_plain) (simp_all add: js_def)
  have s1: "slice (js ''abcdefghij'') 0 5 = js ''abcde''" "slice (js ''abcdefghij'') 3 8 = js ''defgh''"
    "slice (js ''abcdefghij'') 0 0 = []" "slice (js ''abcdefghij'') 5 3 = []"
    "sliceFrom (js ''abcdefghij'') 8 = js ''ij''"
    by (simp_all add: slice_def sliceFrom_def sliceIndex_def js_def)
  show "applyCensoring (js ''abcdefghij'') 0 1 overlapState =
     js ''<span class=\"censored-invisible\">abcde</span><span class=\"censored-blackbar\">defgh</span>ij''"
    by (simp add: applyCensoring_def overlap_regions Let_def s1 e1 e2) (simp add: js_def)
next
  let ?body = "drawTextSegmentBody measureText (censoredRegions overlapState) 0 (js ''white'') 0 1"
  have b1: "?body ([], 4, js ''abcdefghij'', 0) =
      ([DrawTextWithOutline (js ''abc'') 4 0 (js ''white'') None,
        FillRect (4 + measureText (js ''abc'') - 2) 0 (measureText (js ''defgh'') + 4) 16],
       4 + measureText (js ''abc'') + measureText (js ''defgh''), js ''ij'', 8)"
    by (simp add: drawTextSegmentBody_def overlap_regions Let_def slice_def sliceFrom_def
        sliceIndex_def js_def)
  have b2: "?body ([DrawTextWithOutline (js ''abc'') 4 0 (js ''white'') None,
        FillRect (4 + measureText (js ''abc'') - 2) 0 (measureText (js ''defgh'') + 4) 16],
       4 + measureText (js ''abc'') + measureText (js ''defgh''), js ''ij'', 8) =
      ([DrawTextWithOutline (js ''abc'') 4 0 (js ''white'') None,
        FillRect (4 + measureText (js ''abc'') - 2) 0 (measureText (js ''defgh'') + 4) 16,
        DrawTextWithOutline (js ''ij'') (4 + measureText (js ''abc'') + measureText (js ''defgh''))
          0 (js ''white'') None],
       4 + measureText (js ''abc'') + measureText (js ''defgh'') + measureText (js ''ij''), [], 8)"
    by (simp add: drawTextSegmentBody_def overlap_regions Let_def js_def)
  show "drawTextSegment measureText overlapState (js ''abcdefghij'') 4 0 (js ''white'') 0 0 1 =
     Some [DrawTextWithOutline (js ''abc'') 4 0 (js ''white'') None,
           FillRect (4 + measureText (js ''abc'') - 2) 0 (measureText (js ''defgh'') + 4) 16,
           DrawTextWithOutline (js ''ij'') (4 + measureText (js ''abc'') + measureText (js ''defgh''))
             0 (js ''white'') None]"
    unfolding drawTextSegment_def
    apply (subst drawTextSegmentLoop.simps)
    apply (simp only: b1)
    apply (subst drawTextSegmentLoop.simps)
    apply (simp only: b2)
    apply (subst drawTextSegmentLoop.simps)
    apply (simp add: js_def)
    done
qed

section \<open>Word wrap\<close>

text \<open>
  Claim C6 does not hold of the code; this is what the code does on \<open>indentedLine\<close>, which
  is wider than the budget of 300 pixels. The first word of the line is empty, and the
  loop takes an empty \<open>currentLineText\<close> for "no word yet": the runs joined with single
  spaces are the line without its leading space, and the second run is given the start
  position 40 although it starts at offset 41 of the line.
\<close>

theorem wrapped_line_loses_leading_space:
  "sevenPixels indentedLine > 300 \<and>
   lineRuns sevenPixels 300 indentedLine =
     [(js ''abcdefghi abcdefghi abcdefghi abcdefghi'', 0), (js ''abcdefghi'', 40)] \<and>
   joinWith (js '' '') (map fst (lineRuns sevenPixels 300 indentedLine)) =
     js ''abcdefghi abcdefghi abcdefghi abcdefghi abcdefghi'' \<and>
   joinWith (js '' '') (map fst (lineRuns sevenPixels 300 indentedLine)) \<noteq> indentedLine \<and>
   slice indentedLine 40 49 \<noteq> js ''abcdefghi''"
proof -
  have w: "splitOn 32 indentedLine =
      [[], js ''abcdefghi'', js ''abcdefghi'', js ''abcdefghi'', js ''abcdefghi'', js ''abcdefghi'']"
    by (simp add: splitOn_def indentedLine_def js_def)
  have r: "lineRuns sevenPixels 300 indentedLine =
     [(js ''abcdefghi abcdefghi abcdefghi abcdefghi'', 0), (js ''abcdefghi'', 40)]"
    unfolding lineRuns_def w
    by (simp add: sevenPixels_def testLine_def indentedLine_def js_def)
  show ?thesis
    unfolding r
    by (simp add: sevenPixels_def indentedLine_def js_def slice_def sliceIndex_def)
qed

end
